theory Spec2Isabelle
  imports Main "HOL-Library.Sublist" "HOL-Library.Word" "HOL-Library.Finite_Map"
    "HOL-Library.Char_ord" "HOL-Library.List_Lexorder" "HOL-Library.Multiset"
    "HOL-Library.AList"
begin

section \<open>Errors\<close>

text \<open>
  Go error values. \<open>ErrorString\<close> is \<open>errors.New\<close> or \<open>fmt.Errorf\<close> without a wrapped
  cause, \<open>Wrapped\<close> is \<open>fmt.Errorf("...: %w", err)\<close>, \<open>NoErrAlreadyUpToDate\<close> is go-git's
  sentinel, \<open>LibError\<close> is any other error of the go-git library, \<open>SkipDir\<close> is
  \<open>filepath.SkipDir\<close>, and the remaining constructors are the operating system's errors.
\<close>

datatype error =
    ErrorString string
  | Wrapped string error
  | NoErrAlreadyUpToDate
  | LibError string
  | ErrNotExist
  | ErrNotDir
  | ErrIsDir
  | ErrPermission
  | SkipDir

section \<open>Lexical path operations (path/filepath on a Unix host)\<close>

text \<open>\<open>strings.Split(s, "/")\<close>: the pieces between separators, empty pieces included.\<close>

fun split_sep :: "string \<Rightarrow> string list" where
  "split_sep [] = [[]]"
| "split_sep (c # cs) =
     (if c = CHR ''/'' then [] # split_sep cs
      else (case split_sep cs of [] \<Rightarrow> [[c]] | s # ss \<Rightarrow> (c # s) # ss))"

text \<open>\<open>strings.Join(elems, "/")\<close>.\<close>

fun join_sep :: "string list \<Rightarrow> string" where
  "join_sep [] = []"
| "join_sep [x] = x"
| "join_sep (x # y # ys) = x @ CHR ''/'' # join_sep (y # ys)"

text \<open>
  One element of the path read by \<open>filepath.Clean\<close>; \<open>out\<close> holds the elements written so
  far. An empty element and \<open>.\<close> are dropped; \<open>..\<close> removes the last element written when
  there is one that is not itself \<open>..\<close>, is dropped at the root of a rooted path, and is
  kept at the front of a relative one; every other element is appended.
\<close>

definition clean_step :: "bool \<Rightarrow> string list \<Rightarrow> string \<Rightarrow> string list" where
  "clean_step rooted out seg =
     (if seg = [] \<or> seg = ''.'' then out
      else if seg = ''..'' then
        (if out \<noteq> [] \<and> last out \<noteq> ''..'' then butlast out
         else if rooted then out
         else out @ [''..''])
      else out @ [seg])"

definition Clean :: "string \<Rightarrow> string" where
  "Clean path =
     (if path = [] then ''.''
      else
        let rooted = (hd path = CHR ''/'');
            out = foldl (clean_step rooted) [] (split_sep path);
            s = (if rooted then ''/'' else []) @ join_sep out
        in if s = [] then ''.'' else s)"

text \<open>\<open>filepath.Join\<close>: leading empty elements are ignored, the rest is joined and cleaned.\<close>

definition Join :: "string list \<Rightarrow> string" where
  "Join elem =
     (case dropWhile (\<lambda>e. e = []) elem of
        [] \<Rightarrow> []
      | es \<Rightarrow> Clean (join_sep es))"

text \<open>\<open>fmt.Sprintf("%d", n)\<close>.\<close>

definition digit_char :: "nat \<Rightarrow> char" where
  "digit_char d = char_of (48 + d)"

fun dec_nat :: "nat \<Rightarrow> string" where
  "dec_nat n = (if n < 10 then [digit_char n] else dec_nat (n div 10) @ [digit_char (n mod 10)])"

declare dec_nat.simps [simp del]

definition Sprintf_d :: "int \<Rightarrow> string" where
  "Sprintf_d i = (if i < 0 then CHR ''-'' # dec_nat (nat (- i)) else dec_nat (nat i))"

section \<open>Workspace paths\<close>

text \<open>
  \<open>GetWorkspacePath\<close> and \<open>ValidatePath\<close> of \<open>filesystem.go\<close>. The identifiers are Go
  \<open>int\<close>s that are only printed, so they are integers here; \<open>strings.HasPrefix(s, p)\<close> is
  \<open>prefix p s\<close>. \<open>ValidatePath\<close> returns the error (\<open>Inl\<close>) or the cleaned path (\<open>Inr\<close>).
\<close>

definition GetWorkspacePath :: "string \<Rightarrow> int \<Rightarrow> int \<Rightarrow> string" where
  "GetWorkspacePath rootDir userID workspaceID =
     Join [rootDir, Sprintf_d userID, Sprintf_d workspaceID]"

definition ValidatePath :: "string \<Rightarrow> int \<Rightarrow> int \<Rightarrow> string \<Rightarrow> error + string" where
  "ValidatePath rootDir userID workspaceID path =
     (let workspacePath = GetWorkspacePath rootDir userID workspaceID;
          fullPath = Join [workspacePath, path];
          cleanPath = Clean fullPath
      in if \<not> prefix workspacePath cleanPath
         then Inl (ErrorString ''invalid path: outside of workspace'')
         else Inr cleanPath)"

section \<open>The go-git library and the remote\<close>

text \<open>
  The repository handles call the go-git library, which is not part of the sources. The
  model keeps what the handles' callers can observe: which working directories hold a \<open>.git\<close> directory
  (and the remote it points to), the commits of each local clone and of each remote, and
  the sequence of library calls made so far. Whether a call fails is outside the program's
  control, so the world carries a \<open>script\<close>: the outcome of the n-th library call.
  A failed call changes nothing but the trace, with one exception: \<open>PlainClone\<close> can fail
  after it has set up the local repository, and then returns that repository together with
  the error and may leave the \<open>.git\<close> directory behind. \<open>clone_residue\<close> says, for the n-th
  library call, whether a failing clone returns a repository and whether it leaves \<open>.git\<close>.
\<close>

datatype git_call =
    CallClone string string string string
  | CallOpen string
  | CallWorktree string
  | CallPull string string string
  | CallAdd string string
  | CallCommit string string string string
  | CallPush string string string

record commit =
  message :: string
  author :: string
  email :: string

record world =
  origin :: "string \<Rightarrow> string option"
  local_log :: "string \<Rightarrow> commit list"
  remote_log :: "string \<Rightarrow> commit list"
  calls :: "git_call list"
  script :: "nat \<Rightarrow> error option"
  clone_residue :: "nat \<Rightarrow> bool \<times> bool"

datatype Repository = Repository string

datatype Worktree = Worktree string

definition lib_call :: "git_call \<Rightarrow> world \<Rightarrow> error option \<times> world" where
  "lib_call c w = (script w (length (calls w)), w\<lparr>calls := calls w @ [c]\<rparr>)"

text \<open>\<open>os.Stat(dir/.git)\<close> reports that the directory does not exist.\<close>

definition git_dir_missing :: "world \<Rightarrow> string \<Rightarrow> bool" where
  "git_dir_missing w dir = (origin w dir = None)"

text \<open>\<open>git.PlainClone\<close> returns a repository (or \<open>nil\<close>) and an error (or \<open>nil\<close>), as in Go.\<close>

definition git_PlainClone ::
  "string \<Rightarrow> string \<Rightarrow> string \<Rightarrow> string \<Rightarrow> world
     \<Rightarrow> (Repository option \<times> error option) \<times> world" where
  "git_PlainClone path url user pass w =
     (let (e, w1) = lib_call (CallClone path url user pass) w in
      case e of
        Some err \<Rightarrow>
          (case clone_residue w (length (calls w)) of
             (returned, left) \<Rightarrow>
               ((if returned then Some (Repository path) else None, Some err),
                if left then w1\<lparr>origin := (origin w1)(path \<mapsto> url)\<rparr> else w1))
      | None \<Rightarrow>
          if origin w1 path \<noteq> None
          then ((None, Some (LibError ''repository already exists'')), w1)
          else ((Some (Repository path), None),
                w1\<lparr>origin := (origin w1)(path \<mapsto> url),
                   local_log := (local_log w1)(path := remote_log w1 url)\<rparr>))"

definition git_PlainOpen :: "string \<Rightarrow> world \<Rightarrow> (error + Repository) \<times> world" where
  "git_PlainOpen path w =
     (let (e, w1) = lib_call (CallOpen path) w in
      case e of
        Some err \<Rightarrow> (Inl err, w1)
      | None \<Rightarrow>
          if origin w1 path = None then (Inl (LibError ''repository does not exist''), w1)
          else (Inr (Repository path), w1))"

fun repo_Worktree :: "Repository \<Rightarrow> world \<Rightarrow> (error + Worktree) \<times> world" where
  "repo_Worktree (Repository path) w =
     (let (e, w1) = lib_call (CallWorktree path) w in
      case e of Some err \<Rightarrow> (Inl err, w1) | None \<Rightarrow> (Inr (Worktree path), w1))"

text \<open>A successful pull fast-forwards the local clone to its remote.\<close>

definition fast_forward :: "string \<Rightarrow> world \<Rightarrow> world" where
  "fast_forward path w =
     (case origin w path of
        None \<Rightarrow> w
      | Some url \<Rightarrow>
          if prefix (local_log w path) (remote_log w url)
          then w\<lparr>local_log := (local_log w)(path := remote_log w url)\<rparr>
          else w)"

fun worktree_Pull :: "Worktree \<Rightarrow> string \<Rightarrow> string \<Rightarrow> world \<Rightarrow> error option \<times> world" where
  "worktree_Pull (Worktree path) user pass w =
     (let (e, w1) = lib_call (CallPull path user pass) w in
      case e of Some err \<Rightarrow> (Some err, w1) | None \<Rightarrow> (None, fast_forward path w1))"

fun worktree_Add :: "Worktree \<Rightarrow> string \<Rightarrow> world \<Rightarrow> error option \<times> world" where
  "worktree_Add (Worktree path) pattern w = lib_call (CallAdd path pattern) w"

type_synonym CommitHash = nat

definition ZeroHash :: CommitHash where
  "ZeroHash = 0"

text \<open>A successful commit appends to the local history; its hash is the history's length.\<close>

fun worktree_Commit ::
  "Worktree \<Rightarrow> string \<Rightarrow> string \<Rightarrow> string \<Rightarrow> world \<Rightarrow> (CommitHash \<times> error option) \<times> world" where
  "worktree_Commit (Worktree path) msg name mail w =
     (let (e, w1) = lib_call (CallCommit path msg name mail) w in
      case e of
        Some err \<Rightarrow> ((ZeroHash, Some err), w1)
      | None \<Rightarrow>
          let log' = local_log w1 path @ [\<lparr>message = msg, author = name, email = mail\<rparr>]
          in ((length log', None), w1\<lparr>local_log := (local_log w1)(path := log')\<rparr>))"

text \<open>A successful push makes the remote's history the local one.\<close>

definition publish :: "string \<Rightarrow> world \<Rightarrow> world" where
  "publish path w =
     (case origin w path of
        None \<Rightarrow> w
      | Some url \<Rightarrow> w\<lparr>remote_log := (remote_log w)(url := local_log w path)\<rparr>)"

fun repo_Push :: "Repository \<Rightarrow> string \<Rightarrow> string \<Rightarrow> world \<Rightarrow> error option \<times> world" where
  "repo_Push (Repository path) user pass w =
     (let (e, w1) = lib_call (CallPush path user pass) w in
      case e of Some err \<Rightarrow> (Some err, w1) | None \<Rightarrow> (None, publish path w1))"

section \<open>The git client (package git)\<close>

record Config =
  URL :: string
  Username :: string
  Token :: string
  WorkDir :: string
  CommitName :: string
  CommitEmail :: string

record client = Config +
  repo :: "Repository option"

definition New :: "string \<Rightarrow> string \<Rightarrow> string \<Rightarrow> string \<Rightarrow> string \<Rightarrow> string \<Rightarrow> client" where
  "New url username token workDir commitName commitEmail =
     \<lparr>URL = url, Username = username, Token = token, WorkDir = workDir,
      CommitName = commitName, CommitEmail = commitEmail, repo = None\<rparr>"

text \<open>
  The client's methods, without their logging. They take the handle and the world and return
  the error (\<open>None\<close> is Go's \<open>nil\<close>), the handle where the method assigns \<open>c.repo\<close>, and
  the world. \<open>Clone\<close> assigns to \<open>c.repo\<close> whatever \<open>PlainClone\<close> returned, also when it
  failed; \<open>PlainOpen\<close> returns no repository when it fails.
\<close>

definition Clone :: "client \<Rightarrow> world \<Rightarrow> error option \<times> client \<times> world" where
  "Clone c w =
     (case git_PlainClone (WorkDir c) (URL c) (Username c) (Token c) w of
        ((r, Some err), w1) \<Rightarrow>
          (Some (Wrapped ''failed to clone repository'' err), c\<lparr>repo := r\<rparr>, w1)
      | ((r, None), w1) \<Rightarrow> (None, c\<lparr>repo := r\<rparr>, w1))"

definition Pull :: "client \<Rightarrow> world \<Rightarrow> error option \<times> world" where
  "Pull c w =
     (case repo c of
        None \<Rightarrow> (Some (ErrorString ''repository not initialized''), w)
      | Some r \<Rightarrow>
          (case repo_Worktree r w of
             (Inl err, w1) \<Rightarrow> (Some (Wrapped ''failed to get worktree'' err), w1)
           | (Inr wt, w1) \<Rightarrow>
               (case worktree_Pull wt (Username c) (Token c) w1 of
                  (Some err, w2) \<Rightarrow>
                    if err \<noteq> NoErrAlreadyUpToDate
                    then (Some (Wrapped ''failed to pull changes'' err), w2)
                    else (None, w2)
                | (None, w2) \<Rightarrow> (None, w2))))"

definition Commit :: "client \<Rightarrow> string \<Rightarrow> world \<Rightarrow> (CommitHash \<times> error option) \<times> world" where
  "Commit c msg w =
     (case repo c of
        None \<Rightarrow> ((ZeroHash, Some (ErrorString ''repository not initialized'')), w)
      | Some r \<Rightarrow>
          (case repo_Worktree r w of
             (Inl err, w1) \<Rightarrow> ((ZeroHash, Some (Wrapped ''failed to get worktree'' err)), w1)
           | (Inr wt, w1) \<Rightarrow>
               (case worktree_Add wt ''.'' w1 of
                  (Some err, w2) \<Rightarrow> ((ZeroHash, Some (Wrapped ''failed to add changes'' err)), w2)
                | (None, w2) \<Rightarrow>
                    (case worktree_Commit wt msg (CommitName c) (CommitEmail c) w2 of
                       ((h, Some err), w3) \<Rightarrow>
                         ((ZeroHash, Some (Wrapped ''failed to commit changes'' err)), w3)
                     | ((h, None), w3) \<Rightarrow> ((h, None), w3)))))"

definition Push :: "client \<Rightarrow> world \<Rightarrow> error option \<times> world" where
  "Push c w =
     (case repo c of
        None \<Rightarrow> (Some (ErrorString ''repository not initialized''), w)
      | Some r \<Rightarrow>
          (case repo_Push r (Username c) (Token c) w of
             (Some err, w1) \<Rightarrow>
               if err \<noteq> NoErrAlreadyUpToDate
               then (Some (Wrapped ''failed to push changes'' err), w1)
               else (None, w1)
           | (None, w1) \<Rightarrow> (None, w1)))"

definition EnsureRepo :: "client \<Rightarrow> world \<Rightarrow> error option \<times> client \<times> world" where
  "EnsureRepo c w =
     (if git_dir_missing w (WorkDir c) then Clone c w
      else
        (case git_PlainOpen (WorkDir c) w of
           (Inl err, w1) \<Rightarrow>
             (Some (Wrapped ''failed to open existing repository'' err), c\<lparr>repo := None\<rparr>, w1)
         | (Inr r, w1) \<Rightarrow>
             (let c1 = c\<lparr>repo := Some r\<rparr>; (e, w2) = Pull c1 w1 in (e, c1, w2))))"

section \<open>The repository registry (package filesystem)\<close>

type_synonym registry = "(int, (int, client) fmap) fmap"

record FileSystem =
  RootDir :: string
  GitRepos :: registry

definition New_FileSystem :: "string \<Rightarrow> FileSystem" where
  "New_FileSystem rootDir = \<lparr>RootDir = rootDir, GitRepos = fmempty\<rparr>"

text \<open>
  Modelled from the spec: the four-argument constructor \<open>gitutils.New\<close> that
  \<open>SetupGitRepo\<close> calls is not among the sources; the handle it builds is the one of
  \<open>New\<close> above, with no commit author set.
\<close>

definition gitutils_New :: "string \<Rightarrow> string \<Rightarrow> string \<Rightarrow> string \<Rightarrow> client" where
  "gitutils_New gitURL gitUser gitToken workDir = New gitURL gitUser gitToken workDir [] []"

definition getGitRepo :: "FileSystem \<Rightarrow> int \<Rightarrow> int \<Rightarrow> client option" where
  "getGitRepo fs userID workspaceID =
     (case fmlookup (GitRepos fs) userID of
        None \<Rightarrow> None
      | Some userRepos \<Rightarrow> fmlookup userRepos workspaceID)"

text \<open>
  The map holds pointers to handles: the handle is stored first, and \<open>EnsureRepo\<close> then runs
  on the stored handle, so what it assigns to \<open>c.repo\<close> is seen through the map. The error
  of \<open>EnsureRepo\<close> is returned as it is; nothing is removed from the map on the way out.
\<close>

definition SetupGitRepo ::
  "FileSystem \<Rightarrow> world \<Rightarrow> int \<Rightarrow> int \<Rightarrow> string \<Rightarrow> string \<Rightarrow> string
     \<Rightarrow> error option \<times> FileSystem \<times> world" where
  "SetupGitRepo fs w userID workspaceID gitURL gitUser gitToken =
     (let workspacePath = GetWorkspacePath (RootDir fs) userID workspaceID;
          userRepos = (case fmlookup (GitRepos fs) userID of
                         None \<Rightarrow> fmempty
                       | Some m \<Rightarrow> m);
          c = gitutils_New gitURL gitUser gitToken workspacePath;
          (err, c', w') = EnsureRepo c w
      in (err, fs\<lparr>GitRepos := fmupd userID (fmupd workspaceID c' userRepos) (GitRepos fs)\<rparr>, w'))"

definition DisableGitRepo :: "FileSystem \<Rightarrow> int \<Rightarrow> int \<Rightarrow> FileSystem" where
  "DisableGitRepo fs userID workspaceID =
     (case fmlookup (GitRepos fs) userID of
        None \<Rightarrow> fs
      | Some userRepos \<Rightarrow>
          (let userRepos' = fmdrop workspaceID userRepos in
           if fmdom userRepos' = {||}
           then fs\<lparr>GitRepos := fmdrop userID (GitRepos fs)\<rparr>
           else fs\<lparr>GitRepos := fmupd userID userRepos' (GitRepos fs)\<rparr>))"

text \<open>
  \<open>StageCommitAndPush\<close> looks the handle up and calls its \<open>Commit\<close> and \<open>Push\<close>, the
  methods of the client above; the hash \<open>Commit\<close> returns is not used. Neither method
  assigns to the handle, so the registry stays as it is.
\<close>

definition StageCommitAndPush ::
  "FileSystem \<Rightarrow> world \<Rightarrow> int \<Rightarrow> int \<Rightarrow> string \<Rightarrow> error option \<times> world" where
  "StageCommitAndPush fs w userID workspaceID msg =
     (case getGitRepo fs userID workspaceID of
        None \<Rightarrow> (Some (ErrorString ''git settings not configured for this workspace''), w)
      | Some r \<Rightarrow>
          (case Commit r msg w of
             ((h, Some err), w1) \<Rightarrow> (Some err, w1)
           | ((h, None), w1) \<Rightarrow> Push r w1))"

section \<open>Properties of the registry and of the library trace\<close>

text \<open>Every user key of the outer map holds a non-empty inner map.\<close>

definition registry_inv :: "FileSystem \<Rightarrow> bool" where
  "registry_inv fs = fmpred (\<lambda>u m. fmdom m \<noteq> {||}) (GitRepos fs)"

fun is_push :: "git_call \<Rightarrow> bool" where
  "is_push (CallPush _ _ _) = True"
| "is_push _ = False"

fun is_clone :: "git_call \<Rightarrow> bool" where
  "is_clone (CallClone _ _ _ _) = True"
| "is_clone _ = False"

text \<open>
  Concrete worlds and handles for the examples. In them a failing clone returns the
  repository it had set up and removes what it wrote.
\<close>

definition fresh_world :: "(nat \<Rightarrow> error option) \<Rightarrow> world" where
  "fresh_world s =
     \<lparr>origin = Map.empty, local_log = (\<lambda>_. []), remote_log = (\<lambda>_. []), calls = [], script = s,
      clone_residue = (\<lambda>_. (True, False))\<rparr>"

definition offline :: "nat \<Rightarrow> error option" where
  "offline n = Some (LibError ''connection refused'')"

definition online :: "nat \<Rightarrow> error option" where
  "online n = None"

definition fails_at :: "nat \<Rightarrow> nat \<Rightarrow> error option" where
  "fails_at k n = (if n = k then Some (LibError ''connection refused'') else None)"

definition example_client :: client where
  "example_client =
     (New ''https://example.org/r.git'' ''ann'' ''s3cret'' ''/data/7/12'' ''Ann'' ''ann@example.org'')
       \<lparr>repo := Some (Repository ''/data/7/12'')\<rparr>"

definition example_fs :: FileSystem where
  "example_fs = \<lparr>RootDir = ''/data'', GitRepos = fmupd 7 (fmupd 12 example_client fmempty) fmempty\<rparr>"

definition cloned_world :: "(nat \<Rightarrow> error option) \<Rightarrow> world" where
  "cloned_world s =
     \<lparr>origin = [''/data/7/12'' \<mapsto> ''https://example.org/r.git''],
      local_log = (\<lambda>_. []), remote_log = (\<lambda>_. []), calls = [], script = s,
      clone_residue = (\<lambda>_. (True, False))\<rparr>"

section \<open>More of path/filepath\<close>

text \<open>The elements of a cleaned path; the root \<open>/\<close> has the single element before its slash.\<close>

definition elems :: "string \<Rightarrow> string list" where
  "elems s = (if s = [] then [] else if s = ''/'' then [[]] else split_sep s)"

fun strip_common :: "string list \<Rightarrow> string list \<Rightarrow> string list \<times> string list" where
  "strip_common (b # bs) (t # ts) = (if b = t then strip_common bs ts else (b # bs, t # ts))"
| "strip_common bs ts = (bs, ts)"

text \<open>
  \<open>filepath.Rel\<close>: both paths are cleaned, their common leading elements are skipped, and
  the result climbs out of what is left of the base and descends into what is left of the
  target. It fails when only one of the paths is rooted, and when the base continues with
  \<open>..\<close> where the two part.
\<close>

definition Rel :: "string \<Rightarrow> string \<Rightarrow> error + string" where
  "Rel basepath targpath =
     (let base = Clean basepath; targ = Clean targpath in
      if targ = base then Inr ''.''
      else
        let base1 = (if base = ''.'' then [] else base);
            baseSlashed = (base1 \<noteq> [] \<and> hd base1 = CHR ''/'');
            targSlashed = (targ \<noteq> [] \<and> hd targ = CHR ''/'')
        in if baseSlashed \<noteq> targSlashed
           then Inl (ErrorString (''Rel: can't make '' @ targpath @ '' relative to '' @ basepath))
           else
             (case strip_common (elems base1) (elems targ) of
                (brest, trest) \<Rightarrow>
                  if brest \<noteq> [] \<and> trest \<noteq> [] \<and> hd brest = ''..''
                  then Inl (ErrorString (''Rel: can't make '' @ targpath @ '' relative to '' @ basepath))
                  else if brest \<noteq> [] then Inr (join_sep (replicate (length brest) ''..'' @ trest))
                  else Inr (join_sep trest)))"

text \<open>\<open>filepath.Dir\<close>: everything up to the last separator, cleaned.\<close>

definition Dir_of :: "string \<Rightarrow> string" where
  "Dir_of path = Clean (rev (dropWhile (\<lambda>c. c \<noteq> CHR ''/'') (rev path)))"

text \<open>The name \<open>os.Lstat\<close> reports for a path: its last element.\<close>

fun strip_trailing :: "string \<Rightarrow> string" where
  "strip_trailing [] = []"
| "strip_trailing [c] = [c]"
| "strip_trailing (c # d # cs) = (if last (d # cs) = CHR ''/'' then strip_trailing (c # butlast (d # cs)) else c # d # cs)"

definition basename :: "string \<Rightarrow> string" where
  "basename name =
     (let n1 = strip_trailing name in
      if n1 = [] then []
      else rev (takeWhile (\<lambda>c. c \<noteq> CHR ''/'') (rev (butlast n1))) @ [last n1])"

section \<open>The host file system\<close>

text \<open>
  A snapshot of the host's file tree. A file holds its bytes; a directory holds its entries
  by name, and a flag telling whether it can be listed. The process's working directory is
  the root of the tree, and there are no symbolic links.
\<close>

type_synonym byte = "8 word"

datatype fsnode = File "byte list" | Dir bool "(string \<times> fsnode) list"

type_synonym DirEntry = "string \<times> fsnode"

fun IsDir :: "fsnode \<Rightarrow> bool" where
  "IsDir (Dir _ _) = True"
| "IsDir (File _) = False"

text \<open>\<open>os.ReadDir\<close>: the entries of a directory, sorted by file name.\<close>

fun ReadDir :: "fsnode \<Rightarrow> error + DirEntry list" where
  "ReadDir (File _) = Inl ErrNotDir"
| "ReadDir (Dir readable es) = (if readable then Inr (sort_key fst es) else Inl ErrPermission)"

text \<open>The elements the host follows from the root to reach a path.\<close>

definition path_elems :: "string \<Rightarrow> string list" where
  "path_elems p = foldl (clean_step True) [] (split_sep p)"

fun lookup :: "fsnode \<Rightarrow> string list \<Rightarrow> error + fsnode" where
  "lookup node [] = Inr node"
| "lookup (File _) (c # cs) = Inl ErrNotDir"
| "lookup (Dir r es) (c # cs) =
     (case map_of es c of None \<Rightarrow> Inl ErrNotExist | Some child \<Rightarrow> lookup child cs)"

definition Lstat :: "fsnode \<Rightarrow> string \<Rightarrow> error + DirEntry" where
  "Lstat host path =
     (case lookup host (path_elems path) of
        Inl err \<Rightarrow> Inl err
      | Inr node \<Rightarrow> Inr (basename path, node))"

text \<open>\<open>os.ReadFile\<close>, \<open>os.WriteFile\<close> and \<open>os.MkdirAll\<close>, along the elements of the path.\<close>

fun read_at :: "fsnode \<Rightarrow> string list \<Rightarrow> error + byte list" where
  "read_at (File b) [] = Inr b"
| "read_at (Dir _ _) [] = Inl ErrIsDir"
| "read_at (File _) (c # cs) = Inl ErrNotDir"
| "read_at (Dir r es) (c # cs) =
     (case map_of es c of None \<Rightarrow> Inl ErrNotExist | Some child \<Rightarrow> read_at child cs)"

definition ReadFile :: "fsnode \<Rightarrow> string \<Rightarrow> error + byte list" where
  "ReadFile host name = read_at host (path_elems name)"

fun write_at :: "fsnode \<Rightarrow> string list \<Rightarrow> byte list \<Rightarrow> error + fsnode" where
  "write_at (File _) [] dat = Inr (File dat)"
| "write_at (Dir _ _) [] dat = Inl ErrIsDir"
| "write_at (File _) (c # cs) dat = Inl ErrNotDir"
| "write_at (Dir r es) (c # cs) dat =
     (case map_of es c of
        None \<Rightarrow> if cs = [] then Inr (Dir r (es @ [(c, File dat)])) else Inl ErrNotExist
      | Some child \<Rightarrow>
          (case write_at child cs dat of
             Inl err \<Rightarrow> Inl err
           | Inr child' \<Rightarrow> Inr (Dir r (AList.update c child' es))))"

definition WriteFile :: "fsnode \<Rightarrow> string \<Rightarrow> byte list \<Rightarrow> error + fsnode" where
  "WriteFile host name dat = write_at host (path_elems name) dat"

fun new_dirs :: "string list \<Rightarrow> fsnode" where
  "new_dirs [] = Dir True []"
| "new_dirs (c # cs) = Dir True [(c, new_dirs cs)]"

fun mkdir_at :: "fsnode \<Rightarrow> string list \<Rightarrow> error + fsnode" where
  "mkdir_at (Dir r es) [] = Inr (Dir r es)"
| "mkdir_at (File b) cs = Inl ErrNotDir"
| "mkdir_at (Dir r es) (c # cs) =
     (case map_of es c of
        None \<Rightarrow> Inr (Dir r (es @ [(c, new_dirs cs)]))
      | Some child \<Rightarrow>
          (case mkdir_at child cs of
             Inl err \<Rightarrow> Inl err
           | Inr child' \<Rightarrow> Inr (Dir r (AList.update c child' es))))"

definition MkdirAll :: "fsnode \<Rightarrow> string \<Rightarrow> error + fsnode" where
  "MkdirAll host path = mkdir_at host (path_elems path)"

section \<open>File operations (packages filesystem and storage)\<close>

definition GetFileContent :: "fsnode \<Rightarrow> string \<Rightarrow> int \<Rightarrow> int \<Rightarrow> string \<Rightarrow> error + byte list" where
  "GetFileContent host rootDir userID workspaceID filePath =
     (case ValidatePath rootDir userID workspaceID filePath of
        Inl err \<Rightarrow> Inl err
      | Inr fullPath \<Rightarrow> ReadFile host fullPath)"

text \<open>\<open>SaveFile\<close> returns the error, or the host as the write left it.\<close>

definition SaveFile :: "fsnode \<Rightarrow> string \<Rightarrow> int \<Rightarrow> int \<Rightarrow> string \<Rightarrow> byte list \<Rightarrow> error + fsnode" where
  "SaveFile host rootDir userID workspaceID filePath content =
     (case ValidatePath rootDir userID workspaceID filePath of
        Inl err \<Rightarrow> Inl err
      | Inr fullPath \<Rightarrow>
          (let dir = Dir_of fullPath in
           case MkdirAll host dir of
             Inl err \<Rightarrow> Inl err
           | Inr host1 \<Rightarrow> WriteFile host1 fullPath content))"

section \<open>Listing a workspace\<close>

datatype FileNode =
  FileNode (ID: string) (Name: string) (Path: string) (Children: "FileNode list option")

text \<open>
  Three functions of Go's library rest on code that is not in the sources: the Unicode
  tables behind \<open>strings.ToLower\<close> and \<open>strings.EqualFold\<close>, and the algorithm of
  \<open>sort.Slice\<close>. They are taken as parameters, so that what is proved holds for whatever
  the library does.
\<close>

record golib =
  ToLower :: "string \<Rightarrow> string"
  EqualFold :: "string \<Rightarrow> string \<Rightarrow> bool"
  sort_alg :: "(DirEntry \<Rightarrow> DirEntry \<Rightarrow> bool) \<Rightarrow> DirEntry list \<Rightarrow> DirEntry list"

text \<open>
  \<open>sort.Slice\<close> reorders the slice in place by swapping elements, so its result is a
  permutation of the slice whatever the algorithm does; which permutation is the
  algorithm's choice. It is not a stable sort.
\<close>

definition sort_Slice :: "golib \<Rightarrow> (DirEntry \<Rightarrow> DirEntry \<Rightarrow> bool) \<Rightarrow> DirEntry list \<Rightarrow> DirEntry list" where
  "sort_Slice lib lt xs =
     (let ys = sort_alg lib lt xs in if mset ys = mset xs then ys else xs)"

text \<open>The comparison \<open>walkDirectory\<close> sorts by: \<open>ToLower(a.Name()) < ToLower(b.Name())\<close>.\<close>

definition lower_name_less :: "golib \<Rightarrow> DirEntry \<Rightarrow> DirEntry \<Rightarrow> bool" where
  "lower_name_less lib a b = (ToLower lib (fst a) < ToLower lib (fst b))"

definition file_node :: "string \<Rightarrow> DirEntry \<Rightarrow> FileNode" where
  "file_node pfx entry =
     (let name = fst entry; path = Join [pfx, name] in FileNode path name path None)"

lemma size_list_insort_key: "size_list f (insort_key k x xs) = Suc (f x + size_list f xs)"
  by (induction xs) auto

lemma size_list_sort_key: "size_list f (sort_key k xs) = size_list f xs"
  by (induction xs) (auto simp: size_list_insort_key)

lemma size_list_filter_le: "size_list f (filter P xs) \<le> size_list f xs"
  by (induction xs) auto

lemma size_list_mset:
  assumes "mset ys = mset xs"
  shows "size_list f ys = size_list f xs"
proof -
  have "image_mset f (mset ys) = image_mset f (mset xs)"
    using assms by simp
  then have "mset (map f ys) = mset (map f xs)"
    by simp
  then have "sum_mset (mset (map f ys)) = sum_mset (mset (map f xs))"
    by (rule arg_cong)
  then have "sum_list (map f ys) = sum_list (map f xs)"
    unfolding sum_mset_sum_list .
  moreover have "length ys = length xs"
    using assms by (rule mset_eq_length)
  ultimately show ?thesis
    by (simp add: size_list_conv_sum_list)
qed

lemma size_list_sort_Slice: "size_list f (sort_Slice lib lt xs) = size_list f xs"
proof (cases "mset (sort_alg lib lt xs) = mset xs")
  case True
  then show ?thesis
    using size_list_mset [of "sort_alg lib lt xs" xs f] by (simp add: sort_Slice_def)
next
  case False
  then show ?thesis by (simp add: sort_Slice_def)
qed

lemma ReadDir_smaller:
  "ReadDir node = Inr entries \<Longrightarrow> size_list (size_prod (\<lambda>_. 0) size) entries < size node"
  by (cases node) (auto simp: size_list_sort_key split: if_splits)

text \<open>
  \<open>walkDirectory\<close> reads the directory \<open>node\<close> found at its path \<open>dir\<close>; reading
  \<open>filepath.Join(dir, name)\<close> is reading the entry \<open>name\<close> of that node. \<open>walk_dirs\<close> is
  the loop over the sorted subdirectories. A directory node has \<open>Children\<close> set (\<open>Some\<close>,
  possibly of the empty list), a file node has none.
\<close>

function (sequential) walkDirectory :: "golib \<Rightarrow> fsnode \<Rightarrow> string \<Rightarrow> error + FileNode list"
  and walk_dirs :: "golib \<Rightarrow> DirEntry list \<Rightarrow> string \<Rightarrow> error + FileNode list" where
  "walkDirectory lib node pfx =
     (case ReadDir node of
        Inl err \<Rightarrow> Inl err
      | Inr entries \<Rightarrow>
          (let dirs = filter (\<lambda>entry. IsDir (snd entry)) entries;
               files = filter (\<lambda>entry. \<not> IsDir (snd entry)) entries;
               dirs' = sort_Slice lib (lower_name_less lib) dirs;
               files' = sort_Slice lib (lower_name_less lib) files
           in case walk_dirs lib dirs' pfx of
                Inl err \<Rightarrow> Inl err
              | Inr nodes \<Rightarrow> Inr (nodes @ map (file_node pfx) files')))"
| "walk_dirs lib [] pfx = Inr []"
| "walk_dirs lib (entry # rest) pfx =
     (let name = fst entry;
          path = Join [pfx, name]
      in case walkDirectory lib (snd entry) path of
           Inl err \<Rightarrow> Inl err
         | Inr children \<Rightarrow>
             (case walk_dirs lib rest pfx of
                Inl err \<Rightarrow> Inl err
              | Inr nodes \<Rightarrow> Inr (FileNode path name path (Some children) # nodes)))"
  by pat_completeness auto
termination
proof (relation "measure (\<lambda>x. case x of Inl (_, node, _) \<Rightarrow> size node
                                  | Inr (_, es, _) \<Rightarrow> size_list (size_prod (\<lambda>_. 0) size) es)")
  fix lib :: golib and node :: fsnode and pfx :: string and entries dirs dirs' :: "DirEntry list"
  assume "ReadDir node = Inr entries" "dirs = filter (\<lambda>entry. IsDir (snd entry)) entries"
    "dirs' = sort_Slice lib (lower_name_less lib) dirs"
  then show "(Inr (lib, dirs', pfx), Inl (lib, node, pfx)) \<in> measure (\<lambda>x. case x of Inl (_, node, _) \<Rightarrow> size node
                                  | Inr (_, es, _) \<Rightarrow> size_list (size_prod (\<lambda>_. 0) size) es)"
    using ReadDir_smaller [of node entries]
      size_list_filter_le [of "size_prod (\<lambda>_. 0) size" "\<lambda>entry. IsDir (snd entry)" entries]
    by (simp add: size_list_sort_Slice)
next
  fix lib :: golib and entry :: DirEntry and rest :: "DirEntry list" and pfx path :: string
  show "(Inl (lib, snd entry, path), Inr (lib, entry # rest, pfx)) \<in> measure (\<lambda>x. case x of Inl (_, node, _) \<Rightarrow> size node
                                  | Inr (_, es, _) \<Rightarrow> size_list (size_prod (\<lambda>_. 0) size) es)"
    by (cases entry) simp
qed simp_all

declare walkDirectory.simps [simp del]

definition ListFilesRecursively ::
  "golib \<Rightarrow> fsnode \<Rightarrow> string \<Rightarrow> int \<Rightarrow> int \<Rightarrow> error + FileNode list" where
  "ListFilesRecursively lib host rootDir userID workspaceID =
     (let workspacePath = GetWorkspacePath rootDir userID workspaceID in
      case lookup host (path_elems workspacePath) of
        Inl err \<Rightarrow> Inl err
      | Inr node \<Rightarrow> walkDirectory lib node [])"

section \<open>Walking a tree (filepath.Walk and filepath.WalkDir)\<close>

text \<open>
  The callback of a walk is a closure over variables it updates; here it takes their value
  and returns the new one with its error. It receives the path, the entry (absent when the
  root cannot be examined) and the error met on the way to it. The entries of a directory
  are visited in the order of \<open>ReadDir\<close>, each under the path \<open>Join(path, name)\<close>.
\<close>

type_synonym 'a WalkFunc = "'a \<Rightarrow> string \<Rightarrow> DirEntry option \<Rightarrow> error option \<Rightarrow> 'a \<times> error option"

function (sequential) walk :: "string \<Rightarrow> DirEntry \<Rightarrow> 'a WalkFunc \<Rightarrow> 'a \<Rightarrow> 'a \<times> error option"
  and walk_names :: "string \<Rightarrow> DirEntry list \<Rightarrow> 'a WalkFunc \<Rightarrow> 'a \<Rightarrow> 'a \<times> error option" where
  "walk path info walkFn acc =
     (if \<not> IsDir (snd info) then walkFn acc path (Some info) None
      else
        (case ReadDir (snd info) of
           Inl err \<Rightarrow> walkFn acc path (Some info) (Some err)
         | Inr entries \<Rightarrow>
             (case walkFn acc path (Some info) None of
                (acc1, Some err1) \<Rightarrow> (acc1, Some err1)
              | (acc1, None) \<Rightarrow> walk_names path entries walkFn acc1)))"
| "walk_names path [] walkFn acc = (acc, None)"
| "walk_names path (entry # rest) walkFn acc =
     (let filename = Join [path, fst entry] in
      case walk filename entry walkFn acc of
        (acc1, Some err) \<Rightarrow>
          if \<not> IsDir (snd entry) \<or> err \<noteq> SkipDir then (acc1, Some err)
          else walk_names path rest walkFn acc1
      | (acc1, None) \<Rightarrow> walk_names path rest walkFn acc1)"
  by pat_completeness auto
termination
proof (relation "measure (\<lambda>x. case x of Inl (_, info, _, _) \<Rightarrow> size (snd info)
                                  | Inr (_, es, _, _) \<Rightarrow> size_list (size_prod (\<lambda>_. 0) size) es)")
  fix info :: DirEntry and entries :: "DirEntry list" and path :: string
    and walkFn :: "'a WalkFunc" and acc1 :: 'a
  assume "ReadDir (snd info) = Inr entries"
  then show "(Inr (path, entries, walkFn, acc1), Inl (path, info, walkFn, acc)) \<in>
      measure (\<lambda>x. case x of Inl (_, info, _, _) \<Rightarrow> size (snd info)
                                  | Inr (_, es, _, _) \<Rightarrow> size_list (size_prod (\<lambda>_. 0) size) es)" for acc
    using ReadDir_smaller [of "snd info" entries] by simp
next
  fix entry :: DirEntry and rest :: "DirEntry list" and path filename :: string
    and walkFn :: "'a WalkFunc" and acc :: 'a
  show "(Inl (filename, entry, walkFn, acc), Inr (path, entry # rest, walkFn, acc)) \<in>
      measure (\<lambda>x. case x of Inl (_, info, _, _) \<Rightarrow> size (snd info)
                                  | Inr (_, es, _, _) \<Rightarrow> size_list (size_prod (\<lambda>_. 0) size) es)"
    by (cases entry) simp
qed simp_all

declare walk.simps [simp del]

definition Walk :: "fsnode \<Rightarrow> string \<Rightarrow> 'a WalkFunc \<Rightarrow> 'a \<Rightarrow> 'a \<times> error option" where
  "Walk host root fn acc =
     (case (case Lstat host root of
              Inl err \<Rightarrow> fn acc root None (Some err)
            | Inr info \<Rightarrow> walk root info fn acc) of
        (acc1, err) \<Rightarrow> (acc1, if err = Some SkipDir then None else err))"

section \<open>Finding files by name\<close>

text \<open>
  The callback of \<open>FindFileByName\<close>; the closure variable is \<open>foundPaths\<close>. Go would panic
  on an absent entry without an error; \<open>Walk\<close> never calls it so.
\<close>

definition find_fn :: "golib \<Rightarrow> string \<Rightarrow> string \<Rightarrow> string list WalkFunc" where
  "find_fn lib workspacePath filename foundPaths path info err =
     (case err of
        Some e \<Rightarrow> (foundPaths, Some e)
      | None \<Rightarrow>
          (case info of
             None \<Rightarrow> (foundPaths, Some (ErrorString ''nil pointer dereference''))
           | Some i \<Rightarrow>
               if \<not> IsDir (snd i) then
                 (case Rel workspacePath path of
                    Inl e \<Rightarrow> (foundPaths, Some e)
                  | Inr relPath \<Rightarrow>
                      (if EqualFold lib (fst i) filename then foundPaths @ [relPath] else foundPaths,
                       None))
               else (foundPaths, None)))"

definition FindFileByName ::
  "golib \<Rightarrow> fsnode \<Rightarrow> string \<Rightarrow> int \<Rightarrow> int \<Rightarrow> string \<Rightarrow> error + string list" where
  "FindFileByName lib host rootDir userID workspaceID filename =
     (let workspacePath = GetWorkspacePath rootDir userID workspaceID in
      case Walk host workspacePath (find_fn lib workspacePath filename) [] of
        (foundPaths, Some err) \<Rightarrow> Inl err
      | (foundPaths, None) \<Rightarrow>
          if foundPaths = [] then Inl (ErrorString ''file not found'') else Inr foundPaths)"

section \<open>File statistics\<close>

function (sequential) walkDir :: "string \<Rightarrow> DirEntry \<Rightarrow> 'a WalkFunc \<Rightarrow> 'a \<Rightarrow> 'a \<times> error option"
  and walkDir_entries :: "string \<Rightarrow> DirEntry list \<Rightarrow> 'a WalkFunc \<Rightarrow> 'a \<Rightarrow> 'a \<times> error option" where
  "walkDir path d walkDirFn acc =
     (case walkDirFn acc path (Some d) None of
        (acc1, Some err) \<Rightarrow> (acc1, if err = SkipDir \<and> IsDir (snd d) then None else Some err)
      | (acc1, None) \<Rightarrow>
          if \<not> IsDir (snd d) then (acc1, None)
          else
            (case ReadDir (snd d) of
               Inl rerr \<Rightarrow>
                 (case walkDirFn acc1 path (Some d) (Some rerr) of
                    (acc2, Some err) \<Rightarrow>
                      (acc2, if err = SkipDir \<and> IsDir (snd d) then None else Some err)
                  | (acc2, None) \<Rightarrow> (acc2, None))
             | Inr dirs \<Rightarrow> walkDir_entries path dirs walkDirFn acc1))"
| "walkDir_entries path [] walkDirFn acc = (acc, None)"
| "walkDir_entries path (d1 # rest) walkDirFn acc =
     (let path1 = Join [path, fst d1] in
      case walkDir path1 d1 walkDirFn acc of
        (acc1, Some err) \<Rightarrow> if err = SkipDir then (acc1, None) else (acc1, Some err)
      | (acc1, None) \<Rightarrow> walkDir_entries path rest walkDirFn acc1)"
  by pat_completeness auto
termination
proof (relation "measure (\<lambda>x. case x of Inl (_, d, _, _) \<Rightarrow> size (snd d)
                                  | Inr (_, es, _, _) \<Rightarrow> size_list (size_prod (\<lambda>_. 0) size) es)")
  fix d :: DirEntry and dirs :: "DirEntry list" and path :: string
    and walkDirFn :: "'a WalkFunc" and acc1 :: 'a
  assume "ReadDir (snd d) = Inr dirs"
  then show "(Inr (path, dirs, walkDirFn, acc1), Inl (path, d, walkDirFn, acc)) \<in>
      measure (\<lambda>x. case x of Inl (_, d, _, _) \<Rightarrow> size (snd d)
                                  | Inr (_, es, _, _) \<Rightarrow> size_list (size_prod (\<lambda>_. 0) size) es)" for acc
    using ReadDir_smaller [of "snd d" dirs] by simp
next
  fix d1 :: DirEntry and rest :: "DirEntry list" and path path1 :: string
    and walkDirFn :: "'a WalkFunc" and acc :: 'a
  show "(Inl (path1, d1, walkDirFn, acc), Inr (path, d1 # rest, walkDirFn, acc)) \<in>
      measure (\<lambda>x. case x of Inl (_, d, _, _) \<Rightarrow> size (snd d)
                                  | Inr (_, es, _, _) \<Rightarrow> size_list (size_prod (\<lambda>_. 0) size) es)"
    by (cases d1) simp
qed simp_all

declare walkDir.simps [simp del]

definition WalkDir :: "fsnode \<Rightarrow> string \<Rightarrow> 'a WalkFunc \<Rightarrow> 'a \<Rightarrow> 'a \<times> error option" where
  "WalkDir host root fn acc =
     (case (case Lstat host root of
              Inl err \<Rightarrow> fn acc root None (Some err)
            | Inr info \<Rightarrow> walkDir root info fn acc) of
        (acc1, err) \<Rightarrow> (acc1, if err = Some SkipDir then None else err))"

text \<open>
  \<open>TotalFiles\<close> is a Go \<open>int\<close> and \<open>TotalSize\<close> an \<open>int64\<close>: 64-bit words, whose additions
  wrap.
\<close>

record FileCountStats =
  TotalFiles :: "64 word"
  TotalSize :: "64 word"

text \<open>\<open>d.Info()\<close> and \<open>info.Size()\<close>; in a snapshot the entry is still there.\<close>

definition entry_Info :: "DirEntry \<Rightarrow> error + DirEntry" where
  "entry_Info d = Inr d"

fun Size :: "DirEntry \<Rightarrow> 64 word" where
  "Size (name, File b) = of_nat (length b)"
| "Size (name, Dir r es) = 4096"

definition count_fn :: "string \<Rightarrow> FileCountStats WalkFunc" where
  "count_fn directoryPath result path d err =
     (case err of
        Some e \<Rightarrow> (result, Some e)
      | None \<Rightarrow>
          (case d of
             None \<Rightarrow> (result, Some (ErrorString ''nil pointer dereference''))
           | Some d \<Rightarrow>
               if IsDir (snd d) \<and> fst d = ''.git'' then (result, Some SkipDir)
               else if \<not> IsDir (snd d) then
                 (case Rel directoryPath path of
                    Inl e \<Rightarrow> (result, Some (Wrapped ''failed to get relative path'' e))
                  | Inr relPath \<Rightarrow>
                      (case entry_Info d of
                         Inl e \<Rightarrow>
                           (result, Some (Wrapped (''failed to get file info for '' @ relPath) e))
                       | Inr info \<Rightarrow>
                           (result\<lparr>TotalFiles := TotalFiles result + 1,
                                   TotalSize := TotalSize result + Size info\<rparr>, None)))
               else (result, None)))"

definition countFilesInPath :: "fsnode \<Rightarrow> string \<Rightarrow> error + FileCountStats" where
  "countFilesInPath host directoryPath =
     (case WalkDir host directoryPath (count_fn directoryPath) \<lparr>TotalFiles = 0, TotalSize = 0\<rparr> of
        (result, Some err) \<Rightarrow> Inl (Wrapped ''error counting files'' err)
      | (result, None) \<Rightarrow> Inr result)"

definition GetFileStats :: "fsnode \<Rightarrow> string \<Rightarrow> int \<Rightarrow> int \<Rightarrow> error + FileCountStats" where
  "GetFileStats host rootDir userID workspaceID =
     (let workspacePath = GetWorkspacePath rootDir userID workspaceID in
      if Lstat host workspacePath = Inl ErrNotExist
      then Inl (ErrorString ''workspace directory does not exist'')
      else countFilesInPath host workspacePath)"

definition GetTotalFileStats :: "fsnode \<Rightarrow> string \<Rightarrow> error + FileCountStats" where
  "GetTotalFileStats host rootDir = countFilesInPath host rootDir"

section \<open>Properties of trees and listings\<close>

text \<open>A name a directory entry can have: not empty, no separator, neither \<open>.\<close> nor \<open>..\<close>.\<close>

definition good_name :: "string \<Rightarrow> bool" where
  "good_name n = (n \<noteq> [] \<and> CHR ''/'' \<notin> set n \<and> n \<noteq> ''.'' \<and> n \<noteq> ''..'')"

text \<open>Every directory of the tree can be listed.\<close>

fun all_readable :: "fsnode \<Rightarrow> bool" where
  "all_readable (File b) = True"
| "all_readable (Dir r es) = (r \<and> (\<forall>e\<in>set es. all_readable (snd e)))"

text \<open>Every directory can be listed and every entry has a name it can have.\<close>

fun well_formed :: "fsnode \<Rightarrow> bool" where
  "well_formed (File b) = True"
| "well_formed (Dir r es) = (r \<and> (\<forall>e\<in>set es. good_name (fst e) \<and> well_formed (snd e)))"

text \<open>The same, with nothing asked of what lies inside a directory named \<open>.git\<close>.\<close>

fun well_formed_outside_git :: "fsnode \<Rightarrow> bool" where
  "well_formed_outside_git (File b) = True"
| "well_formed_outside_git (Dir r es) =
     (r \<and> (\<forall>e\<in>set es. good_name (fst e) \<and>
                 (IsDir (snd e) \<and> fst e = ''.git'' \<or> well_formed_outside_git (snd e))))"

text \<open>
  One level of a listing is grouped when the nodes with children set (directories) come
  first and nothing but nodes without (files) follows. A listing is grouped when every
  level of it is.
\<close>

definition is_dir_node :: "FileNode \<Rightarrow> bool" where
  "is_dir_node n = (Children n \<noteq> None)"

definition level_grouped :: "FileNode list \<Rightarrow> bool" where
  "level_grouped ns = (\<forall>f\<in>set (dropWhile is_dir_node ns). \<not> is_dir_node f)"

fun tree_grouped :: "FileNode \<Rightarrow> bool" where
  "tree_grouped (FileNode i n p None) = True"
| "tree_grouped (FileNode i n p (Some cs)) = (level_grouped cs \<and> (\<forall>c\<in>set cs. tree_grouped c))"

definition listing_grouped :: "FileNode list \<Rightarrow> bool" where
  "listing_grouped ns = (level_grouped ns \<and> (\<forall>n\<in>set ns. tree_grouped n))"

text \<open>
  One level of a listing is ordered when it is grouped and each of the two groups is
  sorted by lower-cased name, the lower case being the library's \<open>ToLower\<close> and the order
  that of Go's strings, byte by byte. A listing is ordered when every level of it is.
\<close>

definition lower_name :: "golib \<Rightarrow> FileNode \<Rightarrow> string" where
  "lower_name lib n = ToLower lib (Name n)"

definition level_ordered :: "golib \<Rightarrow> FileNode list \<Rightarrow> bool" where
  "level_ordered lib ns =
     (let ds = takeWhile is_dir_node ns; fs = dropWhile is_dir_node ns in
      (\<forall>f\<in>set fs. \<not> is_dir_node f) \<and>
      sorted (map (lower_name lib) ds) \<and> sorted (map (lower_name lib) fs))"

fun tree_ordered :: "golib \<Rightarrow> FileNode \<Rightarrow> bool" where
  "tree_ordered lib (FileNode i n p None) = True"
| "tree_ordered lib (FileNode i n p (Some cs)) =
     (level_ordered lib cs \<and> (\<forall>c\<in>set cs. tree_ordered lib c))"

definition listing_ordered :: "golib \<Rightarrow> FileNode list \<Rightarrow> bool" where
  "listing_ordered lib ns = (level_ordered lib ns \<and> (\<forall>n\<in>set ns. tree_ordered lib n))"

text \<open>
  What \<open>sort.Slice\<close> promises of its algorithm for the comparison of \<open>walkDirectory\<close>: the
  result holds the elements of the slice, and no element of it is less than one before it.
\<close>

definition sort_contract :: "golib \<Rightarrow> bool" where
  "sort_contract lib =
     (\<forall>xs. mset (sort_alg lib (lower_name_less lib) xs) = mset xs \<and>
           sorted_wrt (\<lambda>a b. \<not> lower_name_less lib b a) (sort_alg lib (lower_name_less lib) xs))"

text \<open>
  The files of a tree in the order of a walk: the entries of each directory by name,
  everything below an entry before the next entry. Each file is given by the names leading
  to it from the root of the tree.
\<close>

fun tree_files :: "fsnode \<Rightarrow> string list list" where
  "tree_files (File b) = [[]]"
| "tree_files (Dir r es) =
     concat (map (\<lambda>e. map ((#) (fst e)) (tree_files (snd e))) (sort_key fst es))"

text \<open>A file, given by the names leading to it, matches a query when its own name does.\<close>

definition name_matches :: "golib \<Rightarrow> string \<Rightarrow> string list \<Rightarrow> bool" where
  "name_matches lib q cs = EqualFold lib (last cs) q"

text \<open>Lower case on the letters of ASCII, every other byte kept.\<close>

definition lower_char :: "char \<Rightarrow> char" where
  "lower_char c =
     (if CHR ''A'' \<le> c \<and> c \<le> CHR ''Z'' then char_of (of_char c + (32 :: nat)) else c)"

text \<open>
  What \<open>strings.EqualFold\<close> does on names of ASCII bytes: they are equal under it when
  they are equal up to the case of the letters.
\<close>

definition is_ascii :: "string \<Rightarrow> bool" where
  "is_ascii s = (\<forall>c\<in>set s. of_char c < (128 :: nat))"

definition folds_ascii :: "golib \<Rightarrow> bool" where
  "folds_ascii lib =
     (\<forall>s t. is_ascii s \<and> is_ascii t \<longrightarrow> EqualFold lib s t = (map lower_char s = map lower_char t))"

text \<open>The contents of the files of a tree that do not lie inside a directory named \<open>.git\<close>.\<close>

fun files_outside_git :: "fsnode \<Rightarrow> byte list list" where
  "files_outside_git (File b) = [b]"
| "files_outside_git (Dir r es) =
     concat (map (\<lambda>e. if IsDir (snd e) \<and> fst e = ''.git'' then [] else files_outside_git (snd e)) es)"

text \<open>
  Hosts with one workspace, \<open>/data/7/12\<close>, for the examples: one whose \<open>.git\<close> directory
  cannot be listed, and one with names that differ in case only.
\<close>

definition example_entries :: "DirEntry list" where
  "example_entries =
       [(''notes'', Dir True [(''A.md'', File [104, 105])]),
        (''todo.md'', File []),
        (''NOTES'', Dir True [(''a.MD'', File [255, 254, 0])]),
        (''.git'', Dir False [(''HEAD'', File [1, 2, 3, 4]), (''a.md'', File [5])]),
        (''a-b'', Dir True [(''a.md'', File [7])]),
        (''a'', Dir True [(''a.md'', File [8, 9])]),
        (''Readme.MD'', File [35])]"

definition notes_entries :: "DirEntry list" where
  "notes_entries =
       [(''notes'', Dir True [(''A.md'', File [104, 105])]),
        (''todo.md'', File []),
        (''NOTES'', Dir True [(''a.MD'', File [255, 254, 0])]),
        (''a-b'', Dir True [(''a.md'', File [7])]),
        (''a'', Dir True [(''a.md'', File [8, 9])])]"

definition host_with :: "DirEntry list \<Rightarrow> fsnode" where
  "host_with es = Dir True [(''data'', Dir True [(''7'', Dir True [(''12'', Dir True es)])])]"

section \<open>Two instances of the library\<close>

text \<open>
  Lower case on names written in UTF-8 with the letters of ASCII and of Latin-1: the
  capital letters from U+00C0 to U+00DE, the sign U+00D7 apart, are the byte \<open>0xC3\<close> and a
  byte from \<open>0x80\<close> to \<open>0x9E\<close>, and their small letters lie \<open>0x20\<close> above.
\<close>

fun lower_latin :: "string \<Rightarrow> string" where
  "lower_latin [] = []"
| "lower_latin [c] = [lower_char c]"
| "lower_latin (c # d # s) =
     (if of_char c = (195 :: nat) \<and> 128 \<le> (of_char d :: nat) \<and> (of_char d :: nat) \<le> 158 \<and>
         of_char d \<noteq> (151 :: nat)
      then c # char_of (of_char d + (32 :: nat)) # lower_latin s
      else lower_char c # lower_latin (d # s))"

text \<open>Sorting by insertion, which leaves elements that compare equal in the order they had.\<close>

fun insert_by :: "('a \<Rightarrow> 'a \<Rightarrow> bool) \<Rightarrow> 'a \<Rightarrow> 'a list \<Rightarrow> 'a list" where
  "insert_by lt x [] = [x]"
| "insert_by lt x (y # ys) = (if lt y x then y # insert_by lt x ys else x # y # ys)"

definition sort_stable :: "('a \<Rightarrow> 'a \<Rightarrow> bool) \<Rightarrow> 'a list \<Rightarrow> 'a list" where
  "sort_stable lt xs = foldr (insert_by lt) xs []"

definition ascii_lib :: golib where
  "ascii_lib = \<lparr>ToLower = map lower_char,
                EqualFold = (\<lambda>s t. map lower_char s = map lower_char t),
                sort_alg = sort_stable\<rparr>"

definition latin_lib :: golib where
  "latin_lib = \<lparr>ToLower = lower_latin,
                EqualFold = (\<lambda>s t. lower_latin s = lower_latin t),
                sort_alg = sort_stable\<rparr>"

text \<open>
  A directory whose names differ in case only, and entries whose names go beyond ASCII:
  the UTF-8 bytes of a-grave, A-umlaut, a-umlaut and E-acute before \<open>.md\<close>, and a directory
  named by the bytes of e-acute.
\<close>

definition mixed_case_entries :: "DirEntry list" where
  "mixed_case_entries =
       [(''b.md'', File [1]),
        (''Zeta'', Dir True [(''x.md'', File []), (''X.md'', File []), (''sub'', Dir True [])]),
        (''alpha'', Dir True []),
        (''A.md'', File []),
        (''ALPHA'', Dir True [(''n'', File [])]),
        (''a.MD'', File [2, 3])]"

definition latin_entries :: "DirEntry list" where
  "latin_entries =
     [(''z.md'', File []),
      (CHR 0xC3 # CHR 0xA4 # ''.md'', File [3]),
      (CHR 0xC3 # CHR 0x84 # ''.md'', File [2]),
      (CHR 0xC3 # CHR 0xA0 # ''.md'', File [1]),
      ([CHR 0xC3, CHR 0xA9], Dir True [(CHR 0xC3 # CHR 0x89 # ''.md'', File [4])]),
      (''B'', Dir True []),
      (''b'', Dir True [])]"

text \<open>The listings of the two.\<close>

definition mixed_case_listing :: "FileNode list" where
  "mixed_case_listing =
     [FileNode ''ALPHA'' ''ALPHA'' ''ALPHA'' (Some [FileNode ''ALPHA/n'' ''n'' ''ALPHA/n'' None]),
      FileNode ''alpha'' ''alpha'' ''alpha'' (Some []),
      FileNode ''Zeta'' ''Zeta'' ''Zeta''
        (Some [FileNode ''Zeta/sub'' ''sub'' ''Zeta/sub'' (Some []),
               FileNode ''Zeta/X.md'' ''X.md'' ''Zeta/X.md'' None,
               FileNode ''Zeta/x.md'' ''x.md'' ''Zeta/x.md'' None]),
      FileNode ''A.md'' ''A.md'' ''A.md'' None,
      FileNode ''a.MD'' ''a.MD'' ''a.MD'' None,
      FileNode ''b.md'' ''b.md'' ''b.md'' None]"

definition latin_listing :: "FileNode list" where
  "latin_listing =
     [FileNode ''B'' ''B'' ''B'' (Some []),
      FileNode ''b'' ''b'' ''b'' (Some []),
      FileNode [CHR 0xC3, CHR 0xA9] [CHR 0xC3, CHR 0xA9] [CHR 0xC3, CHR 0xA9]
        (Some [FileNode ([CHR 0xC3, CHR 0xA9] @ ''/'' @ [CHR 0xC3, CHR 0x89] @ ''.md'')
                 (CHR 0xC3 # CHR 0x89 # ''.md'')
                 ([CHR 0xC3, CHR 0xA9] @ ''/'' @ [CHR 0xC3, CHR 0x89] @ ''.md'') None]),
      FileNode ''z.md'' ''z.md'' ''z.md'' None,
      FileNode (CHR 0xC3 # CHR 0xA0 # ''.md'') (CHR 0xC3 # CHR 0xA0 # ''.md'') (CHR 0xC3 # CHR 0xA0 # ''.md'') None,
      FileNode (CHR 0xC3 # CHR 0x84 # ''.md'') (CHR 0xC3 # CHR 0x84 # ''.md'') (CHR 0xC3 # CHR 0x84 # ''.md'') None,
      FileNode (CHR 0xC3 # CHR 0xA4 # ''.md'') (CHR 0xC3 # CHR 0xA4 # ''.md'') (CHR 0xC3 # CHR 0xA4 # ''.md'') None]"
section \<open>Auxiliary notions for the proofs\<close>

text \<open>
  A cleaned path is a root marker and a list of elements: \<open>render\<close> writes it out, and
  \<open>normal\<close> says that the elements are what \<open>Clean\<close> leaves: some \<open>..\<close> in front (none
  if the path is rooted), then names.
\<close>

definition plain :: "string \<Rightarrow> bool" where
  "plain x = (x \<noteq> [] \<and> CHR ''/'' \<notin> set x \<and> x \<noteq> ''.'')"

definition render :: "bool \<Rightarrow> string list \<Rightarrow> string" where
  "render r out = (if r then ''/'' else []) @ join_sep out"

definition normal :: "bool \<Rightarrow> string list \<Rightarrow> bool" where
  "normal r out = (\<exists>k names. out = replicate k ''..'' @ names \<and> (\<forall>x\<in>set names. good_name x) \<and> (r \<longrightarrow> k = 0))"

definition is_digit :: "char \<Rightarrow> bool" where
  "is_digit c = (CHR ''0'' \<le> c \<and> c \<le> CHR ''9'')"

text \<open>Adding files to the statistics, and what an entry contributes to them.\<close>

definition add_stats :: "FileCountStats \<Rightarrow> byte list list \<Rightarrow> FileCountStats" where
  "add_stats acc bs =
     acc\<lparr>TotalFiles := TotalFiles acc + of_nat (length bs),
         TotalSize := TotalSize acc + of_nat (sum_list (map length bs))\<rparr>"

definition outside_git :: "DirEntry \<Rightarrow> byte list list" where
  "outside_git e = (if IsDir (snd e) \<and> fst e = ''.git'' then [] else files_outside_git (snd e))"

text \<open>An entry a counting walk gets through: \<open>.git\<close> directories are not entered.\<close>

definition entry_ok :: "DirEntry \<Rightarrow> bool" where
  "entry_ok e = (good_name (fst e) \<and> (IsDir (snd e) \<and> fst e = ''.git'' \<or> well_formed_outside_git (snd e)))"

section \<open>Path validation\<close>

text \<open>
  C1. The check of \<open>ValidatePath\<close> is a bare string prefix: for the workspace \<open>/data/7/12\<close>
  the relative path \<open>../123/secret.md\<close> is accepted and resolves into the sibling
  directory \<open>/data/7/123\<close>, which is not below the workspace root.
\<close>

theorem ValidatePath_accepts_sibling:
  "GetWorkspacePath ''/data'' 7 12 = ''/data/7/12'' \<and>
   ValidatePath ''/data'' 7 12 ''../123/secret.md'' = Inr ''/data/7/123/secret.md'' \<and>
   \<not> prefix (''/data/7/12'' @ ''/'') ''/data/7/123/secret.md''"
  by code_simp

section \<open>The registry\<close>

lemma getGitRepo_upd:
  "getGitRepo (fs\<lparr>GitRepos := fmupd u (fmupd ws c m) (GitRepos fs)\<rparr>) u' ws' =
     (if u' = u then (if ws' = ws then Some c else fmlookup m ws') else getGitRepo fs u' ws')"
  by (simp add: getGitRepo_def)

lemma inner_lookup:
  "fmlookup (case fmlookup (GitRepos fs) u of None \<Rightarrow> fmempty | Some m \<Rightarrow> m) ws' = getGitRepo fs u ws'"
  by (simp add: getGitRepo_def split: option.splits)

lemma getGitRepo_Setup:
  assumes "SetupGitRepo fs w u ws url usr tok = (e, fs', w')"
  shows "e = fst (EnsureRepo (gitutils_New url usr tok (GetWorkspacePath (RootDir fs) u ws)) w)"
    and "getGitRepo fs' u ws = Some (fst (snd (EnsureRepo (gitutils_New url usr tok (GetWorkspacePath (RootDir fs) u ws)) w)))"
    and "(u', ws') \<noteq> (u, ws) \<Longrightarrow> getGitRepo fs' u' ws' = getGitRepo fs u' ws'"
  using assms
  by (auto simp: SetupGitRepo_def Let_def getGitRepo_upd inner_lookup split: prod.splits)

lemma inv_Setup: "registry_inv fs \<Longrightarrow> registry_inv (fst (snd (SetupGitRepo fs w u ws url usr tok)))"
  by (auto simp: SetupGitRepo_def registry_inv_def Let_def fmpred_iff split: prod.splits option.splits if_splits)

lemma inv_Disable: "registry_inv fs \<Longrightarrow> registry_inv (DisableGitRepo fs u ws)"
  by (auto simp: DisableGitRepo_def registry_inv_def Let_def fmpred_iff split: prod.splits option.splits if_splits)

lemma Disable_absent: "registry_inv fs \<Longrightarrow> getGitRepo fs u ws = None \<Longrightarrow> DisableGitRepo fs u ws = fs"
proof -
  assume inv: "registry_inv fs" and none: "getGitRepo fs u ws = None"
  show ?thesis
  proof (cases "fmlookup (GitRepos fs) u")
    case None
    then show ?thesis by (simp add: DisableGitRepo_def)
  next
    case (Some m)
    with none have "fmlookup m ws = None" by (simp add: getGitRepo_def)
    then have d: "fmdrop ws m = m" by (simp add: fmdrop_idle fmdom_notI)
    from inv Some have ne: "fmdom m \<noteq> {||}" by (auto simp: registry_inv_def fmpred_iff)
    have "fmupd u m (GitRepos fs) = GitRepos fs"
      using Some by (intro fmap_ext) auto
    with Some d ne show ?thesis by (simp add: DisableGitRepo_def Let_def)
  qed
qed

lemma Disable_lookup:
  "getGitRepo (DisableGitRepo fs u ws) u' ws' = (if (u', ws') = (u, ws) then None else getGitRepo fs u' ws')"
proof (cases "fmlookup (GitRepos fs) u")
  case None
  then show ?thesis by (auto simp: DisableGitRepo_def getGitRepo_def)
next
  case (Some m)
  show ?thesis
  proof (cases "fmdom (fmdrop ws m) = {||}")
    case True
    then have "\<And>k. k \<noteq> ws \<Longrightarrow> fmlookup m k = None"
      by (metis fmdom_notD fmlookup_drop fempty_iff)
    with Some True show ?thesis
      by (auto simp: DisableGitRepo_def getGitRepo_def Let_def)
  next
    case False
    with Some show ?thesis
      by (auto simp: DisableGitRepo_def getGitRepo_def Let_def)
  qed
qed


text \<open>
  C10. The registry keeps every user key on a non-empty inner map: the empty registry has
  the property, \<open>SetupGitRepo\<close> keeps it (the inner map it makes receives the handle at
  once, so the pair is registered afterwards), \<open>DisableGitRepo\<close> keeps it (the user key goes
  when the inner map becomes empty) and unregisters the pair, and \<open>DisableGitRepo\<close>
  on a pair that is not registered returns the registry as it was.
\<close>

theorem registry_inv_maintained:
  "registry_inv (New_FileSystem root) \<and>
   (registry_inv fs \<longrightarrow>
      registry_inv (fst (snd (SetupGitRepo fs w u ws url usr tok))) \<and>
      registry_inv (DisableGitRepo fs u ws) \<and>
      (getGitRepo fs u ws = None \<longrightarrow> DisableGitRepo fs u ws = fs)) \<and>
   getGitRepo (fst (snd (SetupGitRepo fs w u ws url usr tok))) u ws \<noteq> None \<and>
   getGitRepo (DisableGitRepo fs u ws) u ws = None"
proof -
  have "registry_inv (New_FileSystem root)"
    by (simp add: registry_inv_def New_FileSystem_def)
  moreover have "getGitRepo (fst (snd (SetupGitRepo fs w u ws url usr tok))) u ws \<noteq> None"
    using getGitRepo_Setup(2) [of fs w u ws url usr tok] by (metis option.distinct(1) prod.collapse)
  moreover have "getGitRepo (DisableGitRepo fs u ws) u ws = None"
    by (simp add: Disable_lookup)
  ultimately show ?thesis
    using inv_Setup inv_Disable Disable_absent by blast
qed

theorem registry_inv_maintained_witness:
  "registry_inv example_fs \<and>
   registry_inv (fst (snd (SetupGitRepo example_fs (fresh_world offline) 7 13 ''https://example.org/r.git'' ''ann'' ''s3cret''))) \<and>
   registry_inv (DisableGitRepo example_fs 7 12) \<and>
   GitRepos (DisableGitRepo example_fs 7 12) = fmempty \<and>
   getGitRepo example_fs 7 13 = None \<and>
   DisableGitRepo example_fs 7 13 = example_fs"
proof -
  have inv: "registry_inv example_fs"
    by (simp add: registry_inv_def example_fs_def fmpred_iff)
  have absent: "getGitRepo example_fs 7 13 = None"
    by (simp add: getGitRepo_def example_fs_def)
  have gone: "GitRepos (DisableGitRepo example_fs 7 12) = fmempty"
    by (simp add: DisableGitRepo_def example_fs_def fmdrop_fmupd)
  from inv absent gone
    registry_inv_maintained [of "''/data''" example_fs "fresh_world offline" 7 13
      "''https://example.org/r.git''" "''ann''" "''s3cret''"]
    registry_inv_maintained [of "''/data''" example_fs "fresh_world offline" 7 12
      "''https://example.org/r.git''" "''ann''" "''s3cret''"]
  show ?thesis by simp
qed

text \<open>
  C2, as the spec states it: after a failed \<open>SetupGitRepo\<close> no handle is registered for
  the pair. On the empty registry with an unreachable remote the call returns the clone
  error, and the pair is registered afterwards, with the handle the failed clone left.
\<close>

theorem SetupGitRepo_failure_keeps_handle:
  "fst (SetupGitRepo (New_FileSystem ''/data'') (fresh_world offline) 7 12
          ''https://example.org/r.git'' ''ann'' ''s3cret'')
     = Some (Wrapped ''failed to clone repository'' (LibError ''connection refused'')) \<and>
   getGitRepo (New_FileSystem ''/data'') 7 12 = None \<and>
   getGitRepo (fst (snd (SetupGitRepo (New_FileSystem ''/data'') (fresh_world offline) 7 12
          ''https://example.org/r.git'' ''ann'' ''s3cret''))) 7 12
     = Some ((gitutils_New ''https://example.org/r.git'' ''ann'' ''s3cret'' ''/data/7/12'')
               \<lparr>repo := Some (Repository ''/data/7/12'')\<rparr>)"
  by code_simp

text \<open>
  C2, amended: when \<open>EnsureRepo\<close> fails, \<open>SetupGitRepo\<close> returns that error unchanged, the
  registry holds the new handle (as \<open>EnsureRepo\<close> left it) for the pair, and every other
  pair is registered as before.
\<close>

theorem SetupGitRepo_failure_registry:
  assumes "fst (SetupGitRepo fs w u ws url usr tok) = Some err"
  shows "fst (EnsureRepo (gitutils_New url usr tok (GetWorkspacePath (RootDir fs) u ws)) w) = Some err \<and>
         getGitRepo (fst (snd (SetupGitRepo fs w u ws url usr tok))) u ws =
           Some (fst (snd (EnsureRepo (gitutils_New url usr tok (GetWorkspacePath (RootDir fs) u ws)) w))) \<and>
         (\<forall>u' ws'. (u', ws') \<noteq> (u, ws) \<longrightarrow>
            getGitRepo (fst (snd (SetupGitRepo fs w u ws url usr tok))) u' ws' = getGitRepo fs u' ws')"
proof -
  obtain e fs' w' where s: "SetupGitRepo fs w u ws url usr tok = (e, fs', w')"
    by (cases "SetupGitRepo fs w u ws url usr tok") auto
  with assms have "e = Some err" by simp
  with s getGitRepo_Setup [OF s] show ?thesis by auto
qed

theorem SetupGitRepo_failure_registry_witness:
  "fst (SetupGitRepo example_fs (fresh_world offline) 7 13 ''https://example.org/r.git'' ''ann'' ''s3cret'')
     = Some (Wrapped ''failed to clone repository'' (LibError ''connection refused'')) \<and>
   getGitRepo (fst (snd (SetupGitRepo example_fs (fresh_world offline) 7 13
          ''https://example.org/r.git'' ''ann'' ''s3cret''))) 7 13
     = Some ((gitutils_New ''https://example.org/r.git'' ''ann'' ''s3cret'' ''/data/7/13'')
               \<lparr>repo := Some (Repository ''/data/7/13'')\<rparr>) \<and>
   getGitRepo (fst (snd (SetupGitRepo example_fs (fresh_world offline) 7 13
          ''https://example.org/r.git'' ''ann'' ''s3cret''))) 7 12
     = Some example_client"
proof -
  have h: "fst (SetupGitRepo example_fs (fresh_world offline) 7 13 ''https://example.org/r.git'' ''ann'' ''s3cret'')
     = Some (Wrapped ''failed to clone repository'' (LibError ''connection refused''))"
    by code_simp
  have c: "fst (snd (EnsureRepo (gitutils_New ''https://example.org/r.git'' ''ann'' ''s3cret''
               (GetWorkspacePath (RootDir example_fs) 7 13)) (fresh_world offline)))
           = (gitutils_New ''https://example.org/r.git'' ''ann'' ''s3cret'' ''/data/7/13'')
               \<lparr>repo := Some (Repository ''/data/7/13'')\<rparr>"
    by code_simp
  have g: "getGitRepo example_fs 7 12 = Some example_client"
    by (simp add: getGitRepo_def example_fs_def)
  from SetupGitRepo_failure_registry [OF h] h c g show ?thesis by simp
qed

section \<open>Commit, push and ensure-repo\<close>

lemma fast_forward_fields [simp]:
  "calls (fast_forward p w) = calls w" "origin (fast_forward p w) = origin w"
  "remote_log (fast_forward p w) = remote_log w" "script (fast_forward p w) = script w"
  by (auto simp: fast_forward_def split: option.splits)

lemma publish_fields [simp]:
  "calls (publish p w) = calls w" "origin (publish p w) = origin w"
  "local_log (publish p w) = local_log w" "script (publish p w) = script w"
  by (auto simp: publish_def split: option.splits)

lemma repo_Worktree_effect:
  assumes "repo_Worktree r w = (res, w1)"
  obtains p where "r = Repository p" "w1 = w\<lparr>calls := calls w @ [CallWorktree p]\<rparr>"
    "res = (case script w (length (calls w)) of Some err \<Rightarrow> Inl err | None \<Rightarrow> Inr (Worktree p))"
  using assms by (cases r) (auto simp: lib_call_def split: option.splits)

lemma worktree_Add_effect:
  assumes "worktree_Add wt pat w = (e, w1)"
  obtains p where "wt = Worktree p" "w1 = w\<lparr>calls := calls w @ [CallAdd p pat]\<rparr>"
    "e = script w (length (calls w))"
  using assms by (cases wt) (auto simp: lib_call_def)

lemma worktree_Commit_effect:
  assumes "worktree_Commit wt msg nm ml w = ((h, e), w1)"
  obtains p where "wt = Worktree p" "calls w1 = calls w @ [CallCommit p msg nm ml]"
    "origin w1 = origin w" "remote_log w1 = remote_log w" "script w1 = script w"
    "e = script w (length (calls w))"
    "local_log w1 = (if e = None
        then (local_log w)(p := local_log w p @ [\<lparr>message = msg, author = nm, email = ml\<rparr>])
        else local_log w)"
  using assms by (cases wt) (auto simp: lib_call_def Let_def split: option.splits)

lemma worktree_Pull_effect:
  assumes "worktree_Pull wt usr tok w = (e, w1)"
  obtains p where "wt = Worktree p" "calls w1 = calls w @ [CallPull p usr tok]"
    "origin w1 = origin w" "remote_log w1 = remote_log w"
    "e = script w (length (calls w))"
  using assms by (cases wt) (auto simp: lib_call_def Let_def split: option.splits)

lemma repo_Push_effect:
  assumes "repo_Push r usr tok w = (e, w1)"
  obtains p where "r = Repository p" "calls w1 = calls w @ [CallPush p usr tok]"
    "origin w1 = origin w" "local_log w1 = local_log w"
    "e = script w (length (calls w))"
    "e \<noteq> None \<Longrightarrow> remote_log w1 = remote_log w"
  using assms by (cases r) (auto simp: lib_call_def Let_def split: option.splits)

lemma Commit_effect:
  assumes "Commit c msg w = ((h, e), w1)"
  shows "\<exists>cs. calls w1 = calls w @ cs \<and> (\<forall>x\<in>set cs. \<not> is_push x)"
    and "origin w1 = origin w" and "remote_log w1 = remote_log w"
  using assms
  by (auto simp: Commit_def lib_call_def Let_def
           split: option.splits prod.splits sum.splits
           elim!: repo_Worktree_effect worktree_Add_effect worktree_Commit_effect)

lemma Commit_ok:
  assumes "Commit c msg w = ((h, None), w1)" and "repo c = Some (Repository p)"
  shows "calls w1 = calls w @ [CallWorktree p, CallAdd p ''.'', CallCommit p msg (CommitName c) (CommitEmail c)]"
    and "local_log w1 = (local_log w)(p := local_log w p @ [\<lparr>message = msg, author = CommitName c, email = CommitEmail c\<rparr>])"
  using assms
  by (auto simp: Commit_def lib_call_def Let_def
           split: option.splits prod.splits sum.splits
           elim!: repo_Worktree_effect worktree_Add_effect worktree_Commit_effect)

lemma Push_effect:
  assumes "Push c w = (e, w1)" and "repo c = Some (Repository p)"
  shows "calls w1 = calls w @ [CallPush p (Username c) (Token c)]"
    and "local_log w1 = local_log w" and "origin w1 = origin w"
    and "e \<noteq> None \<Longrightarrow> remote_log w1 = remote_log w"
  using assms
  by (auto simp: Push_def lib_call_def Let_def split: option.splits prod.splits if_splits elim!: repo_Push_effect)

lemma Stage_none:
  "getGitRepo fs u ws = None \<Longrightarrow>
   StageCommitAndPush fs w u ws msg = (Some (ErrorString ''git settings not configured for this workspace''), w)"
  by (simp add: StageCommitAndPush_def)

lemma Stage_commit_fails:
  "getGitRepo fs u ws = Some c \<Longrightarrow> Commit c msg w = ((h, Some e), w1) \<Longrightarrow>
   StageCommitAndPush fs w u ws msg = (Some e, w1)"
  by (simp add: StageCommitAndPush_def)

lemma Stage_commit_ok:
  "getGitRepo fs u ws = Some c \<Longrightarrow> Commit c msg w = ((h, None), w1) \<Longrightarrow>
   StageCommitAndPush fs w u ws msg = Push c w1"
  by (simp add: StageCommitAndPush_def)

lemma Commit_ok_repo: "Commit c msg w = ((h, None), w1) \<Longrightarrow> \<exists>p. repo c = Some (Repository p)"
  by (cases "repo c") (auto simp: Commit_def intro: Repository.exhaust)

lemma Ensure_missing:
  "git_dir_missing w (WorkDir c) \<Longrightarrow> EnsureRepo c w = Clone c w"
  by (simp add: EnsureRepo_def)

lemma Clone_calls:
  "Clone c w = (e, c1, w1) \<Longrightarrow> calls w1 = calls w @ [CallClone (WorkDir c) (URL c) (Username c) (Token c)]"
  by (auto simp: Clone_def git_PlainClone_def lib_call_def Let_def split: option.splits prod.splits sum.splits if_splits)

lemma Clone_ok:
  "Clone c w = (None, c1, w1) \<Longrightarrow>
     \<not> git_dir_missing w1 (WorkDir c) \<and> c1 = c\<lparr>repo := Some (Repository (WorkDir c))\<rparr>"
  by (auto simp: Clone_def git_PlainClone_def lib_call_def Let_def git_dir_missing_def split: option.splits prod.splits sum.splits if_splits)

lemma Pull_calls:
  "Pull c w = (e, w1) \<Longrightarrow> \<exists>cs. calls w1 = calls w @ cs \<and> (\<forall>x\<in>set cs. \<not> is_clone x)"
  by (auto simp: Pull_def lib_call_def Let_def
           split: option.splits prod.splits sum.splits if_splits
           elim!: repo_Worktree_effect worktree_Pull_effect)

lemma Pull_ok_calls:
  "Pull c w = (None, w1) \<Longrightarrow> repo c = Some (Repository p) \<Longrightarrow>
    calls w1 = calls w @ [CallWorktree p, CallPull p (Username c) (Token c)]"
  by (auto simp: Pull_def lib_call_def Let_def
           split: option.splits prod.splits sum.splits if_splits
           elim!: repo_Worktree_effect worktree_Pull_effect)

lemma Ensure_present:
  assumes "\<not> git_dir_missing w (WorkDir c)" and "EnsureRepo c w = (e, c1, w1)"
  shows "\<exists>cs. calls w1 = calls w @ CallOpen (WorkDir c) # cs \<and> (\<forall>x\<in>set cs. \<not> is_clone x)"
  using assms 
  by (auto simp: EnsureRepo_def git_PlainOpen_def lib_call_def Let_def
           split: option.splits prod.splits sum.splits if_splits dest!: Pull_calls)

lemma Ensure_present_ok:
  assumes "\<not> git_dir_missing w (WorkDir c)" and "EnsureRepo c w = (None, c1, w1)"
  shows "calls w1 = calls w @ [CallOpen (WorkDir c), CallWorktree (WorkDir c), CallPull (WorkDir c) (Username c) (Token c)]"
  using assms
  by (auto simp: EnsureRepo_def git_PlainOpen_def lib_call_def Let_def
           split: option.splits prod.splits sum.splits if_splits dest!: Pull_ok_calls)

text \<open>
  C6. \<open>StageCommitAndPush\<close> without a registered handle returns the not-configured error
  and leaves the world untouched (no library call is made). With a handle it commits
  first: a failed commit is returned as it is and no push is among the calls made; after a
  successful commit the result is that of \<open>Push\<close> on the world the commit left, the calls
  made are worktree, add, commit, push in this order and nothing after the push, the local
  history holds the new commit whatever the push returns, and a failed push leaves every
  remote as it was.
\<close>

theorem StageCommitAndPush_commit_then_push:
  "(getGitRepo fs u ws = None \<longrightarrow>
      StageCommitAndPush fs w u ws msg =
        (Some (ErrorString ''git settings not configured for this workspace''), w)) \<and>
   (getGitRepo fs u ws = Some c \<and> snd (fst (Commit c msg w)) = Some e \<longrightarrow>
      StageCommitAndPush fs w u ws msg = (Some e, snd (Commit c msg w)) \<and>
      (\<exists>cs. calls (snd (StageCommitAndPush fs w u ws msg)) = calls w @ cs \<and>
            (\<forall>x\<in>set cs. \<not> is_push x))) \<and>
   (getGitRepo fs u ws = Some c \<and> snd (fst (Commit c msg w)) = None \<longrightarrow>
      StageCommitAndPush fs w u ws msg = Push c (snd (Commit c msg w)) \<and>
      (\<exists>p. repo c = Some (Repository p) \<and>
           calls (snd (StageCommitAndPush fs w u ws msg)) =
             calls w @ [CallWorktree p, CallAdd p ''.'',
                        CallCommit p msg (CommitName c) (CommitEmail c),
                        CallPush p (Username c) (Token c)] \<and>
           local_log (snd (StageCommitAndPush fs w u ws msg)) p =
             local_log w p @ [\<lparr>message = msg, author = CommitName c, email = CommitEmail c\<rparr>] \<and>
           (fst (StageCommitAndPush fs w u ws msg) \<noteq> None \<longrightarrow>
              remote_log (snd (StageCommitAndPush fs w u ws msg)) = remote_log w)))"
proof (intro conjI impI)
  assume "getGitRepo fs u ws = None"
  then show "StageCommitAndPush fs w u ws msg =
      (Some (ErrorString ''git settings not configured for this workspace''), w)"
    by (rule Stage_none)
next
  assume a: "getGitRepo fs u ws = Some c \<and> snd (fst (Commit c msg w)) = Some e"
  then obtain h w1 where cm: "Commit c msg w = ((h, Some e), w1)"
    by (cases "Commit c msg w") auto
  with a show st: "StageCommitAndPush fs w u ws msg = (Some e, snd (Commit c msg w))"
    by (simp add: Stage_commit_fails)
  from Commit_effect(1) [OF cm] cm st
  show "\<exists>cs. calls (snd (StageCommitAndPush fs w u ws msg)) = calls w @ cs \<and>
            (\<forall>x\<in>set cs. \<not> is_push x)"
    by simp
next
  assume a: "getGitRepo fs u ws = Some c \<and> snd (fst (Commit c msg w)) = None"
  then obtain h w1 where cm: "Commit c msg w = ((h, None), w1)"
    by (cases "Commit c msg w") auto
  with a show st: "StageCommitAndPush fs w u ws msg = Push c (snd (Commit c msg w))"
    by (simp add: Stage_commit_ok)
  from Commit_ok_repo [OF cm] obtain p where p: "repo c = Some (Repository p)" ..
  obtain e2 w2 where pu: "Push c w1 = (e2, w2)" by (cases "Push c w1") auto
  from st cm pu have res: "StageCommitAndPush fs w u ws msg = (e2, w2)" by simp
  have "calls w2 = calls w @ [CallWorktree p, CallAdd p ''.'',
                        CallCommit p msg (CommitName c) (CommitEmail c),
                        CallPush p (Username c) (Token c)]"
    using Commit_ok(1) [OF cm p] Push_effect(1) [OF pu p] by simp
  moreover have "local_log w2 p =
      local_log w p @ [\<lparr>message = msg, author = CommitName c, email = CommitEmail c\<rparr>]"
    using Commit_ok(2) [OF cm p] Push_effect(2) [OF pu p] by simp
  moreover have "e2 \<noteq> None \<longrightarrow> remote_log w2 = remote_log w"
    using Commit_effect(3) [OF cm] Push_effect(4) [OF pu p] by simp
  ultimately show "\<exists>p. repo c = Some (Repository p) \<and>
           calls (snd (StageCommitAndPush fs w u ws msg)) =
             calls w @ [CallWorktree p, CallAdd p ''.'',
                        CallCommit p msg (CommitName c) (CommitEmail c),
                        CallPush p (Username c) (Token c)] \<and>
           local_log (snd (StageCommitAndPush fs w u ws msg)) p =
             local_log w p @ [\<lparr>message = msg, author = CommitName c, email = CommitEmail c\<rparr>] \<and>
           (fst (StageCommitAndPush fs w u ws msg) \<noteq> None \<longrightarrow>
              remote_log (snd (StageCommitAndPush fs w u ws msg)) = remote_log w)"
    using p res by simp
qed

theorem StageCommitAndPush_commit_then_push_witness:
  "getGitRepo example_fs 7 13 = None \<and>
   fst (StageCommitAndPush example_fs (cloned_world online) 7 13 ''notes'') =
     Some (ErrorString ''git settings not configured for this workspace'') \<and>
   calls (snd (StageCommitAndPush example_fs (cloned_world online) 7 13 ''notes'')) = [] \<and>
   getGitRepo example_fs 7 12 = Some example_client \<and>
   snd (fst (Commit example_client ''notes'' (cloned_world (fails_at 2)))) =
     Some (Wrapped ''failed to commit changes'' (LibError ''connection refused'')) \<and>
   fst (StageCommitAndPush example_fs (cloned_world (fails_at 2)) 7 12 ''notes'') =
     Some (Wrapped ''failed to commit changes'' (LibError ''connection refused'')) \<and>
   calls (snd (StageCommitAndPush example_fs (cloned_world (fails_at 2)) 7 12 ''notes'')) =
     [CallWorktree ''/data/7/12'', CallAdd ''/data/7/12'' ''.'',
      CallCommit ''/data/7/12'' ''notes'' ''Ann'' ''ann@example.org''] \<and>
   snd (fst (Commit example_client ''notes'' (cloned_world (fails_at 3)))) = None \<and>
   fst (StageCommitAndPush example_fs (cloned_world (fails_at 3)) 7 12 ''notes'') =
     Some (Wrapped ''failed to push changes'' (LibError ''connection refused'')) \<and>
   local_log (snd (StageCommitAndPush example_fs (cloned_world (fails_at 3)) 7 12 ''notes'')) ''/data/7/12'' =
     [\<lparr>message = ''notes'', author = ''Ann'', email = ''ann@example.org''\<rparr>] \<and>
   remote_log (snd (StageCommitAndPush example_fs (cloned_world (fails_at 3)) 7 12 ''notes'')) =
     remote_log (cloned_world (fails_at 3))"
proof -
  have n: "getGitRepo example_fs 7 13 = None"
    by (simp add: getGitRepo_def example_fs_def)
  have g: "getGitRepo example_fs 7 12 = Some example_client"
    by (simp add: getGitRepo_def example_fs_def)
  have c2: "snd (fst (Commit example_client ''notes'' (cloned_world (fails_at 2)))) =
     Some (Wrapped ''failed to commit changes'' (LibError ''connection refused''))"
    by code_simp
  have c3: "snd (fst (Commit example_client ''notes'' (cloned_world (fails_at 3)))) = None"
    by code_simp
  have e3: "fst (StageCommitAndPush example_fs (cloned_world (fails_at 3)) 7 12 ''notes'') =
     Some (Wrapped ''failed to push changes'' (LibError ''connection refused''))"
    by code_simp
  have t2: "calls (snd (StageCommitAndPush example_fs (cloned_world (fails_at 2)) 7 12 ''notes'')) =
     [CallWorktree ''/data/7/12'', CallAdd ''/data/7/12'' ''.'',
      CallCommit ''/data/7/12'' ''notes'' ''Ann'' ''ann@example.org'']"
    by code_simp
  have l0: "local_log (cloned_world (fails_at 3)) ''/data/7/12'' = []"
    by (simp add: cloned_world_def)
  have ec: "repo example_client = Some (Repository ''/data/7/12'')"
    "CommitName example_client = ''Ann''" "CommitEmail example_client = ''ann@example.org''"
    by (simp_all add: example_client_def New_def)
  have k0: "calls (cloned_world online) = []"
    by (simp add: cloned_world_def)
  from StageCommitAndPush_commit_then_push
         [of example_fs 7 13 "cloned_world online" "''notes''" example_client]
       StageCommitAndPush_commit_then_push
         [of example_fs 7 12 "cloned_world (fails_at 2)" "''notes''" example_client
             "Wrapped ''failed to commit changes'' (LibError ''connection refused'')"]
       StageCommitAndPush_commit_then_push
         [of example_fs 7 12 "cloned_world (fails_at 3)" "''notes''" example_client]
       n g c2 c3 e3 t2 l0 ec k0
  show ?thesis by auto
qed

lemma Ensure_twice:
  assumes m: "git_dir_missing w (WorkDir c)"
    and e1: "EnsureRepo c w = (None, c1, w1)"
    and second: "EnsureRepo c1 w1 = (e2, c2, w2)"
  shows "\<exists>cs. calls w2 = calls w @ CallClone (WorkDir c) (URL c) (Username c) (Token c)
                      # CallOpen (WorkDir c) # cs \<and> (\<forall>x\<in>set cs. \<not> is_clone x)"
    and "e2 = None \<Longrightarrow>
         calls w2 = calls w @ [CallClone (WorkDir c) (URL c) (Username c) (Token c),
                      CallOpen (WorkDir c), CallWorktree (WorkDir c),
                      CallPull (WorkDir c) (Username c) (Token c)]"
proof -
  from m e1 have first: "Clone c w = (None, c1, w1)"
    by (simp add: Ensure_missing)
  from Clone_ok [OF first] have here: "\<not> git_dir_missing w1 (WorkDir c1)"
    and same: "WorkDir c1 = WorkDir c" "Username c1 = Username c" "Token c1 = Token c"
    by auto
  have k1: "calls w1 = calls w @ [CallClone (WorkDir c) (URL c) (Username c) (Token c)]"
    using Clone_calls [OF first] .
  from Ensure_present [OF here second] k1 same
  show "\<exists>cs. calls w2 = calls w @ CallClone (WorkDir c) (URL c) (Username c) (Token c)
                      # CallOpen (WorkDir c) # cs \<and> (\<forall>x\<in>set cs. \<not> is_clone x)"
    by auto
  assume "e2 = None"
  with second have s2: "EnsureRepo c1 w1 = (None, c2, w2)" by simp
  from Ensure_present_ok [OF here s2] k1 same
  show "calls w2 = calls w @ [CallClone (WorkDir c) (URL c) (Username c) (Token c),
                      CallOpen (WorkDir c), CallWorktree (WorkDir c),
                      CallPull (WorkDir c) (Username c) (Token c)]"
    by simp
qed

text \<open>
  C7. \<open>EnsureRepo\<close> on a working directory without \<open>.git\<close> is \<open>Clone\<close>: one clone call with
  the handle's URL and credential. On a working directory with \<open>.git\<close> it opens the local
  clone and makes no clone call; once the clone is open, its result is that of \<open>Pull\<close> on
  the opened handle; when it succeeds the calls are open, worktree, pull.
  Hence two calls in a row, starting without \<open>.git\<close> and with a first call that succeeds,
  make the clone call once, in the first call; the second call opens the clone, makes no
  clone call, and when it succeeds the whole trace is clone, open, worktree, pull.
\<close>

theorem EnsureRepo_clone_once_then_pull:
  "(git_dir_missing w (WorkDir c) \<longrightarrow>
      EnsureRepo c w = Clone c w \<and>
      calls (snd (snd (EnsureRepo c w))) =
        calls w @ [CallClone (WorkDir c) (URL c) (Username c) (Token c)]) \<and>
   (\<not> git_dir_missing w (WorkDir c) \<longrightarrow>
      (\<exists>cs. calls (snd (snd (EnsureRepo c w))) = calls w @ CallOpen (WorkDir c) # cs \<and>
            (\<forall>x\<in>set cs. \<not> is_clone x)) \<and>
      (\<forall>r w1. git_PlainOpen (WorkDir c) w = (Inr r, w1) \<longrightarrow>
         fst (EnsureRepo c w) = fst (Pull (c\<lparr>repo := Some r\<rparr>) w1) \<and>
         snd (snd (EnsureRepo c w)) = snd (Pull (c\<lparr>repo := Some r\<rparr>) w1)) \<and>
      (fst (EnsureRepo c w) = None \<longrightarrow>
         calls (snd (snd (EnsureRepo c w))) =
           calls w @ [CallOpen (WorkDir c), CallWorktree (WorkDir c),
                      CallPull (WorkDir c) (Username c) (Token c)])) \<and>
   (git_dir_missing w (WorkDir c) \<and> fst (EnsureRepo c w) = None \<longrightarrow>
      (\<exists>cs. calls (snd (snd (EnsureRepo (fst (snd (EnsureRepo c w))) (snd (snd (EnsureRepo c w)))))) =
              calls w @ CallClone (WorkDir c) (URL c) (Username c) (Token c)
                      # CallOpen (WorkDir c) # cs \<and>
            (\<forall>x\<in>set cs. \<not> is_clone x)) \<and>
      (fst (EnsureRepo (fst (snd (EnsureRepo c w))) (snd (snd (EnsureRepo c w)))) = None \<longrightarrow>
         calls (snd (snd (EnsureRepo (fst (snd (EnsureRepo c w))) (snd (snd (EnsureRepo c w)))))) =
           calls w @ [CallClone (WorkDir c) (URL c) (Username c) (Token c),
                      CallOpen (WorkDir c), CallWorktree (WorkDir c),
                      CallPull (WorkDir c) (Username c) (Token c)]))"
proof (intro conjI impI)
  assume m: "git_dir_missing w (WorkDir c)"
  then show "EnsureRepo c w = Clone c w" by (rule Ensure_missing)
  then show "calls (snd (snd (EnsureRepo c w))) =
        calls w @ [CallClone (WorkDir c) (URL c) (Username c) (Token c)]"
    using Clone_calls [of c w] by (cases "Clone c w") auto
next
  assume p: "\<not> git_dir_missing w (WorkDir c)"
  show "\<exists>cs. calls (snd (snd (EnsureRepo c w))) = calls w @ CallOpen (WorkDir c) # cs \<and>
            (\<forall>x\<in>set cs. \<not> is_clone x)"
    using Ensure_present [OF p] by (cases "EnsureRepo c w") auto
next
  assume p: "\<not> git_dir_missing w (WorkDir c)"
  then show "\<forall>r w1. git_PlainOpen (WorkDir c) w = (Inr r, w1) \<longrightarrow>
         fst (EnsureRepo c w) = fst (Pull (c\<lparr>repo := Some r\<rparr>) w1) \<and>
         snd (snd (EnsureRepo c w)) = snd (Pull (c\<lparr>repo := Some r\<rparr>) w1)"
    by (simp add: EnsureRepo_def Let_def split: prod.splits)
next
  assume p: "\<not> git_dir_missing w (WorkDir c)" and ok: "fst (EnsureRepo c w) = None"
  then show "calls (snd (snd (EnsureRepo c w))) =
           calls w @ [CallOpen (WorkDir c), CallWorktree (WorkDir c),
                      CallPull (WorkDir c) (Username c) (Token c)]"
    using Ensure_present_ok [OF p] by (cases "EnsureRepo c w") auto
next
  assume a: "git_dir_missing w (WorkDir c) \<and> fst (EnsureRepo c w) = None"
  then obtain c1 w1 where e1: "EnsureRepo c w = (None, c1, w1)"
    by (cases "EnsureRepo c w") auto
  obtain e2 c2 w2 where second: "EnsureRepo c1 w1 = (e2, c2, w2)"
    by (cases "EnsureRepo c1 w1") auto
  from a Ensure_twice(1) [OF _ e1 second] e1 second
  show "\<exists>cs. calls (snd (snd (EnsureRepo (fst (snd (EnsureRepo c w))) (snd (snd (EnsureRepo c w)))))) =
              calls w @ CallClone (WorkDir c) (URL c) (Username c) (Token c)
                      # CallOpen (WorkDir c) # cs \<and>
            (\<forall>x\<in>set cs. \<not> is_clone x)"
    by simp
next
  assume a: "git_dir_missing w (WorkDir c) \<and> fst (EnsureRepo c w) = None"
    and b: "fst (EnsureRepo (fst (snd (EnsureRepo c w))) (snd (snd (EnsureRepo c w)))) = None"
  then obtain c1 w1 where e1: "EnsureRepo c w = (None, c1, w1)"
    by (cases "EnsureRepo c w") auto
  with b obtain c2 w2 where second: "EnsureRepo c1 w1 = (None, c2, w2)"
    by (cases "EnsureRepo c1 w1") auto
  from a Ensure_twice(2) [OF _ e1 second] e1 second
  show "calls (snd (snd (EnsureRepo (fst (snd (EnsureRepo c w))) (snd (snd (EnsureRepo c w)))))) =
           calls w @ [CallClone (WorkDir c) (URL c) (Username c) (Token c),
                      CallOpen (WorkDir c), CallWorktree (WorkDir c),
                      CallPull (WorkDir c) (Username c) (Token c)]"
    by simp
qed

theorem EnsureRepo_clone_once_then_pull_witness:
  "git_dir_missing (fresh_world online) (WorkDir example_client) \<and>
   fst (EnsureRepo example_client (fresh_world online)) = None \<and>
   \<not> git_dir_missing (snd (snd (EnsureRepo example_client (fresh_world online)))) (WorkDir example_client) \<and>
   fst (EnsureRepo (fst (snd (EnsureRepo example_client (fresh_world online))))
                   (snd (snd (EnsureRepo example_client (fresh_world online))))) = None \<and>
   calls (snd (snd (EnsureRepo (fst (snd (EnsureRepo example_client (fresh_world online))))
                   (snd (snd (EnsureRepo example_client (fresh_world online))))))) =
     [CallClone ''/data/7/12'' ''https://example.org/r.git'' ''ann'' ''s3cret'',
      CallOpen ''/data/7/12'', CallWorktree ''/data/7/12'',
      CallPull ''/data/7/12'' ''ann'' ''s3cret''] \<and>
   calls (snd (snd (EnsureRepo example_client (cloned_world online)))) =
     [CallOpen ''/data/7/12'', CallWorktree ''/data/7/12'',
      CallPull ''/data/7/12'' ''ann'' ''s3cret'']"
proof -
  have m: "git_dir_missing (fresh_world online) (WorkDir example_client)"
    by (simp add: git_dir_missing_def fresh_world_def)
  have p: "\<not> git_dir_missing (cloned_world online) (WorkDir example_client)"
    by (simp add: git_dir_missing_def cloned_world_def example_client_def New_def)
  have p1: "\<not> git_dir_missing (snd (snd (EnsureRepo example_client (fresh_world online)))) (WorkDir example_client)"
    by code_simp
  have f: "fst (EnsureRepo example_client (fresh_world online)) = None"
    by code_simp
  have s: "fst (EnsureRepo (fst (snd (EnsureRepo example_client (fresh_world online))))
                   (snd (snd (EnsureRepo example_client (fresh_world online))))) = None"
    by code_simp
  have t: "fst (EnsureRepo example_client (cloned_world online)) = None"
    by code_simp
  have ec: "WorkDir example_client = ''/data/7/12''" "URL example_client = ''https://example.org/r.git''"
    "Username example_client = ''ann''" "Token example_client = ''s3cret''"
    by (simp_all add: example_client_def New_def)
  have k: "calls (fresh_world online) = []" "calls (cloned_world online) = []"
    by (simp_all add: fresh_world_def cloned_world_def)
  note T1 = EnsureRepo_clone_once_then_pull [of "fresh_world online" example_client]
  note T2 = EnsureRepo_clone_once_then_pull [of "cloned_world online" example_client]
  from T1 m f s have
    "calls (snd (snd (EnsureRepo (fst (snd (EnsureRepo example_client (fresh_world online))))
                   (snd (snd (EnsureRepo example_client (fresh_world online))))))) =
       calls (fresh_world online) @
         [CallClone (WorkDir example_client) (URL example_client) (Username example_client) (Token example_client),
          CallOpen (WorkDir example_client), CallWorktree (WorkDir example_client),
          CallPull (WorkDir example_client) (Username example_client) (Token example_client)]"
    by blast
  moreover from T2 p t have
    "calls (snd (snd (EnsureRepo example_client (cloned_world online)))) =
       calls (cloned_world online) @
         [CallOpen (WorkDir example_client), CallWorktree (WorkDir example_client),
          CallPull (WorkDir example_client) (Username example_client) (Token example_client)]"
    by blast
  ultimately show ?thesis
    using m p1 f s ec k by simp
qed

section \<open>Reading and writing files\<close>

lemma write_at_read_at: "write_at t cs b = Inr t' \<Longrightarrow> read_at t' cs = Inr b"
proof (induction t cs b arbitrary: t' rule: write_at.induct)
  case (4 r es c cs dat)
  show ?case
  proof (cases "map_of es c")
    case None
    with 4 show ?thesis by (auto split: if_splits simp: map_add_def)
  next
    case (Some child)
    with 4 show ?thesis by (auto split: sum.splits simp: update_conv')
  qed
qed auto

text \<open>
  C5. When \<open>SaveFile\<close> of the bytes \<open>b\<close> at the path \<open>p\<close> succeeds, \<open>GetFileContent\<close> of
  \<open>p\<close> on the host it leaves returns exactly \<open>b\<close>, for any bytes.
\<close>

theorem SaveFile_then_GetFileContent:
  assumes "SaveFile host rootDir userID workspaceID p b = Inr host'"
  shows "GetFileContent host' rootDir userID workspaceID p = Inr b"
  using assms
  by (auto simp: SaveFile_def GetFileContent_def WriteFile_def ReadFile_def Let_def
           split: sum.splits dest: write_at_read_at)

theorem SaveFile_then_GetFileContent_witness:
  "SaveFile (host_with []) ''/data'' 7 12 ''notes/new/bin.dat'' [255, 254, 0, 128] =
     Inr (host_with [(''notes'', Dir True [(''new'', Dir True [(''bin.dat'', File [255, 254, 0, 128])])])]) \<and>
   GetFileContent (host_with [(''notes'', Dir True [(''new'', Dir True [(''bin.dat'', File [255, 254, 0, 128])])])])
     ''/data'' 7 12 ''notes/new/bin.dat'' = Inr [255, 254, 0, 128] \<and>
   SaveFile (host_with notes_entries) ''/data'' 7 12 ''todo.md'' [] = Inr (host_with notes_entries) \<and>
   GetFileContent (host_with notes_entries) ''/data'' 7 12 ''todo.md'' = Inr []"
proof -
  have s: "SaveFile (host_with []) ''/data'' 7 12 ''notes/new/bin.dat'' [255, 254, 0, 128] =
     Inr (host_with [(''notes'', Dir True [(''new'', Dir True [(''bin.dat'', File [255, 254, 0, 128])])])])"
    by code_simp
  have e: "SaveFile (host_with notes_entries) ''/data'' 7 12 ''todo.md'' [] = Inr (host_with notes_entries)"
    by code_simp
  from SaveFile_then_GetFileContent [OF s] SaveFile_then_GetFileContent [OF e] s e
  show ?thesis by simp
qed

section \<open>The order of a listing\<close>

lemma walk_dirs_nodes:
  "walk_dirs lib ds pfx = Inr nodes \<Longrightarrow>
   list_all2 (\<lambda>e n. \<exists>cs. walkDirectory lib (snd e) (Join [pfx, fst e]) = Inr cs \<and>
                      n = FileNode (Join [pfx, fst e]) (fst e) (Join [pfx, fst e]) (Some cs)) ds nodes"
proof (induction ds arbitrary: nodes)
  case Nil
  then show ?case by simp
next
  case (Cons e ds)
  then show ?case
    by (auto simp: Let_def split: sum.splits)
qed

lemma walk_dirs_names:
  assumes "walk_dirs lib ds pfx = Inr nodes"
  shows "map Name nodes = map fst ds" and "\<forall>n\<in>set nodes. is_dir_node n"
proof -
  from walk_dirs_nodes [OF assms]
  have l: "list_all2 (\<lambda>e n. Name n = fst e \<and> is_dir_node n) ds nodes"
    by (rule list_all2_mono) (auto simp: is_dir_node_def)
  then show "map Name nodes = map fst ds"
    by (induction rule: list_all2_induct) auto
  from l show "\<forall>n\<in>set nodes. is_dir_node n"
    by (induction rule: list_all2_induct) auto
qed

lemma walkDirectory_split:
  assumes "walkDirectory lib node pfx = Inr nodes"
  obtains entries dnodes where "ReadDir node = Inr entries"
    and "walk_dirs lib (sort_Slice lib (lower_name_less lib) (filter (\<lambda>entry. IsDir (snd entry)) entries)) pfx = Inr dnodes"
    and "nodes = dnodes @ map (file_node pfx)
           (sort_Slice lib (lower_name_less lib) (filter (\<lambda>entry. \<not> IsDir (snd entry)) entries))"
  using assms by (auto simp: walkDirectory.simps Let_def split: sum.splits)

lemma takeWhile_dropWhile_groups:
  assumes "\<forall>d\<in>set ds. P d" and "\<forall>f\<in>set fs. \<not> P f"
  shows "takeWhile P (ds @ fs) = ds" and "dropWhile P (ds @ fs) = fs"
  using assms by (induction ds) (auto simp: takeWhile_eq_Nil_iff dropWhile_eq_self_iff intro: hd_in_set)

lemma file_node_fields [simp]:
  "Name (file_node pfx e) = fst e" "Children (file_node pfx e) = None"
  by (simp_all add: file_node_def Let_def)

lemma mset_sort_Slice [simp]: "mset (sort_Slice lib lt xs) = mset xs"
  by (simp add: sort_Slice_def Let_def)

lemma set_sort_Slice [simp]: "set (sort_Slice lib lt xs) = set xs"
  using mset_sort_Slice [of lib lt xs] by (rule mset_eq_setD)

lemma sorted_lower_sort:
  assumes "sort_contract lib"
  shows "sorted (map (\<lambda>e. ToLower lib (fst e)) (sort_Slice lib (lower_name_less lib) es))"
proof -
  from assms have "sort_Slice lib (lower_name_less lib) es = sort_alg lib (lower_name_less lib) es"
    by (simp add: sort_contract_def sort_Slice_def Let_def)
  moreover from assms
  have "sorted_wrt (\<lambda>a b. \<not> lower_name_less lib b a) (sort_alg lib (lower_name_less lib) es)"
    by (simp add: sort_contract_def)
  ultimately show ?thesis
    by (simp add: lower_name_less_def sorted_map not_less)
qed

lemma walkDirectory_shape:
  assumes "walkDirectory lib node pfx = Inr nodes"
  obtains entries dnodes fs where "ReadDir node = Inr entries"
    and "walk_dirs lib (sort_Slice lib (lower_name_less lib) (filter (\<lambda>entry. IsDir (snd entry)) entries)) pfx = Inr dnodes"
    and "fs = sort_Slice lib (lower_name_less lib) (filter (\<lambda>entry. \<not> IsDir (snd entry)) entries)"
    and "nodes = dnodes @ map (file_node pfx) fs"
    and "takeWhile is_dir_node nodes = dnodes"
    and "dropWhile is_dir_node nodes = map (file_node pfx) fs"
proof -
  from assms obtain entries dnodes where rd: "ReadDir node = Inr entries"
    and wd: "walk_dirs lib (sort_Slice lib (lower_name_less lib) (filter (\<lambda>entry. IsDir (snd entry)) entries)) pfx = Inr dnodes"
    and n: "nodes = dnodes @ map (file_node pfx)
           (sort_Slice lib (lower_name_less lib) (filter (\<lambda>entry. \<not> IsDir (snd entry)) entries))"
    by (rule walkDirectory_split)
  let ?fs = "sort_Slice lib (lower_name_less lib) (filter (\<lambda>entry. \<not> IsDir (snd entry)) entries)"
  have d: "\<forall>n\<in>set dnodes. is_dir_node n" using walk_dirs_names(2) [OF wd] .
  have f: "\<forall>n\<in>set (map (file_node pfx) ?fs). \<not> is_dir_node n" by (auto simp: is_dir_node_def)
  from takeWhile_dropWhile_groups [OF d f] rd wd n show ?thesis
    by (intro that [of entries dnodes ?fs]) simp_all
qed

lemma level_grouped_walk:
  assumes "walkDirectory lib node pfx = Inr nodes"
  shows "level_grouped nodes"
proof -
  from assms obtain fs where "dropWhile is_dir_node nodes = map (file_node pfx) fs"
    by (rule walkDirectory_shape)
  then show ?thesis
    by (auto simp: level_grouped_def is_dir_node_def)
qed

lemma level_ordered_walk:
  assumes "walkDirectory lib node pfx = Inr nodes" and c: "sort_contract lib"
  shows "level_ordered lib nodes"
proof -
  from assms(1) obtain entries dnodes fs where rd: "ReadDir node = Inr entries"
    and wd: "walk_dirs lib (sort_Slice lib (lower_name_less lib) (filter (\<lambda>entry. IsDir (snd entry)) entries)) pfx = Inr dnodes"
    and fs: "fs = sort_Slice lib (lower_name_less lib) (filter (\<lambda>entry. \<not> IsDir (snd entry)) entries)"
    and t: "takeWhile is_dir_node nodes = dnodes"
    and d: "dropWhile is_dir_node nodes = map (file_node pfx) fs"
    by (rule walkDirectory_shape)
  have "map (lower_name lib) dnodes = map (ToLower lib) (map Name dnodes)"
    by (simp add: lower_name_def comp_def)
  also have "\<dots> = map (\<lambda>e. ToLower lib (fst e))
      (sort_Slice lib (lower_name_less lib) (filter (\<lambda>entry. IsDir (snd entry)) entries))"
    by (simp add: walk_dirs_names(1) [OF wd] comp_def)
  finally have sd: "sorted (map (lower_name lib) dnodes)"
    by (simp add: sorted_lower_sort [OF c])
  have "map (lower_name lib) (map (file_node pfx) fs) = map (\<lambda>e. ToLower lib (fst e)) fs"
    by (simp add: lower_name_def comp_def)
  then have sf: "sorted (map (lower_name lib) (map (file_node pfx) fs))"
    unfolding fs by (simp only: sorted_lower_sort [OF c])
  have "\<forall>f\<in>set (map (file_node pfx) fs). \<not> is_dir_node f"
    by (auto simp: is_dir_node_def)
  with sd sf show ?thesis
    unfolding level_ordered_def t d by (simp add: Let_def)
qed

lemma tree_grouped_walk:
  "(walkDirectory lib node pfx = Inr nodes \<longrightarrow> (\<forall>n\<in>set nodes. tree_grouped n))"
  "(walk_dirs lib ds pfx = Inr nodes \<longrightarrow> (\<forall>n\<in>set nodes. tree_grouped n))"
proof (induction lib node pfx and lib ds pfx arbitrary: nodes and nodes rule: walkDirectory_walk_dirs.induct)
  case (1 lib node pfx)
  show ?case
  proof
    assume a: "walkDirectory lib node pfx = Inr nodes"
    then obtain entries dnodes where rd: "ReadDir node = Inr entries"
      and wd: "walk_dirs lib (sort_Slice lib (lower_name_less lib) (filter (\<lambda>entry. IsDir (snd entry)) entries)) pfx = Inr dnodes"
      and n: "nodes = dnodes @ map (file_node pfx)
           (sort_Slice lib (lower_name_less lib) (filter (\<lambda>entry. \<not> IsDir (snd entry)) entries))"
      by (rule walkDirectory_split)
    from 1 [OF rd refl refl refl refl] wd have "\<forall>n\<in>set dnodes. tree_grouped n" by blast
    moreover have "\<forall>n\<in>set (map (file_node pfx)
           (sort_Slice lib (lower_name_less lib) (filter (\<lambda>entry. \<not> IsDir (snd entry)) entries))). tree_grouped n"
      by (auto simp: file_node_def Let_def)
    ultimately show "\<forall>n\<in>set nodes. tree_grouped n" using n by auto
  qed
next
  case (2 lib pfx)
  then show ?case by simp
next
  case (3 lib entry rest pfx)
  show ?case
  proof
    assume a: "walk_dirs lib (entry # rest) pfx = Inr nodes"
    then obtain cs ns where c: "walkDirectory lib (snd entry) (Join [pfx, fst entry]) = Inr cs"
      and r: "walk_dirs lib rest pfx = Inr ns"
      and n: "nodes = FileNode (Join [pfx, fst entry]) (fst entry) (Join [pfx, fst entry]) (Some cs) # ns"
      by (auto simp: Let_def split: sum.splits)
    from 3(1) [OF refl refl] c have "\<forall>n\<in>set cs. tree_grouped n" by blast
    moreover from level_grouped_walk [OF c] have "level_grouped cs" .
    moreover from 3(2) [OF refl refl c] r have "\<forall>n\<in>set ns. tree_grouped n" by blast
    ultimately show "\<forall>n\<in>set nodes. tree_grouped n" using n by simp
  qed
qed

lemma tree_ordered_walk:
  "sort_contract lib \<longrightarrow> walkDirectory lib node pfx = Inr nodes \<longrightarrow> (\<forall>n\<in>set nodes. tree_ordered lib n)"
  "sort_contract lib \<longrightarrow> walk_dirs lib ds pfx = Inr nodes \<longrightarrow> (\<forall>n\<in>set nodes. tree_ordered lib n)"
proof (induction lib node pfx and lib ds pfx arbitrary: nodes and nodes rule: walkDirectory_walk_dirs.induct)
  case (1 lib node pfx)
  show ?case
  proof (intro impI)
    assume sc: "sort_contract lib" and a: "walkDirectory lib node pfx = Inr nodes"
    from a obtain entries dnodes where rd: "ReadDir node = Inr entries"
      and wd: "walk_dirs lib (sort_Slice lib (lower_name_less lib) (filter (\<lambda>entry. IsDir (snd entry)) entries)) pfx = Inr dnodes"
      and n: "nodes = dnodes @ map (file_node pfx)
           (sort_Slice lib (lower_name_less lib) (filter (\<lambda>entry. \<not> IsDir (snd entry)) entries))"
      by (rule walkDirectory_split)
    from 1 [OF rd refl refl refl refl] wd sc have "\<forall>n\<in>set dnodes. tree_ordered lib n" by blast
    moreover have "\<forall>n\<in>set (map (file_node pfx)
           (sort_Slice lib (lower_name_less lib) (filter (\<lambda>entry. \<not> IsDir (snd entry)) entries))). tree_ordered lib n"
      by (auto simp: file_node_def Let_def)
    ultimately show "\<forall>n\<in>set nodes. tree_ordered lib n" using n by auto
  qed
next
  case (2 lib pfx)
  then show ?case by simp
next
  case (3 lib entry rest pfx)
  show ?case
  proof (intro impI)
    assume sc: "sort_contract lib" and a: "walk_dirs lib (entry # rest) pfx = Inr nodes"
    from a obtain cs ns where c: "walkDirectory lib (snd entry) (Join [pfx, fst entry]) = Inr cs"
      and r: "walk_dirs lib rest pfx = Inr ns"
      and n: "nodes = FileNode (Join [pfx, fst entry]) (fst entry) (Join [pfx, fst entry]) (Some cs) # ns"
      by (auto simp: Let_def split: sum.splits)
    from 3(1) [OF refl refl] c sc have "\<forall>n\<in>set cs. tree_ordered lib n" by blast
    moreover from level_ordered_walk [OF c sc] have "level_ordered lib cs" .
    moreover from 3(2) [OF refl refl c] r sc have "\<forall>n\<in>set ns. tree_ordered lib n" by blast
    ultimately show "\<forall>n\<in>set nodes. tree_ordered lib n" using n by simp
  qed
qed

lemma walkDirectory_total:
  "(all_readable node \<and> IsDir node \<longrightarrow> (\<exists>nodes. walkDirectory lib node pfx = Inr nodes))"
  "((\<forall>e\<in>set ds. IsDir (snd e) \<and> all_readable (snd e)) \<longrightarrow> (\<exists>nodes. walk_dirs lib ds pfx = Inr nodes))"
proof (induction lib node pfx and lib ds pfx rule: walkDirectory_walk_dirs.induct)
  case (1 lib node pfx)
  show ?case
  proof
    assume a: "all_readable node \<and> IsDir node"
    then obtain r es where node: "node = Dir r es" by (cases node) auto
    with a have rd: "ReadDir node = Inr (sort_key fst es)" and sub: "\<forall>e\<in>set es. all_readable (snd e)"
      by auto
    let ?ds = "sort_Slice lib (lower_name_less lib) (filter (\<lambda>entry. IsDir (snd entry)) (sort_key fst es))"
    have "\<forall>e\<in>set ?ds. IsDir (snd e) \<and> all_readable (snd e)"
      using sub by auto
    with 1 [OF rd refl refl refl refl] obtain dnodes where "walk_dirs lib ?ds pfx = Inr dnodes"
      by blast
    with rd show "\<exists>nodes. walkDirectory lib node pfx = Inr nodes"
      by (simp add: walkDirectory.simps Let_def)
  qed
next
  case (2 lib pfx)
  then show ?case by simp
next
  case (3 lib entry rest pfx)
  show ?case
  proof
    assume a: "\<forall>e\<in>set (entry # rest). IsDir (snd e) \<and> all_readable (snd e)"
    with 3(1) [OF refl refl] obtain cs where c: "walkDirectory lib (snd entry) (Join [pfx, fst entry]) = Inr cs"
      by auto
    with 3(2) [OF refl refl c] a obtain ns where "walk_dirs lib rest pfx = Inr ns" by auto
    with c show "\<exists>nodes. walk_dirs lib (entry # rest) pfx = Inr nodes"
      by (simp add: Let_def)
  qed
qed

lemma walkDirectory_groups:
  assumes "walkDirectory lib (Dir r es) pfx = Inr nodes"
  shows "mset (map Name (takeWhile is_dir_node nodes)) = mset (map fst (filter (\<lambda>e. IsDir (snd e)) es))"
    and "mset (map Name (dropWhile is_dir_node nodes)) = mset (map fst (filter (\<lambda>e. \<not> IsDir (snd e)) es))"
    and "\<forall>e\<in>set es. IsDir (snd e) \<longrightarrow>
           (\<exists>cs. walkDirectory lib (snd e) (Join [pfx, fst e]) = Inr cs \<and>
                 FileNode (Join [pfx, fst e]) (fst e) (Join [pfx, fst e]) (Some cs) \<in> set nodes)"
    and "\<forall>e\<in>set es. \<not> IsDir (snd e) \<longrightarrow>
           FileNode (Join [pfx, fst e]) (fst e) (Join [pfx, fst e]) None \<in> set nodes"
proof -
  from assms obtain entries dnodes fs where rd: "ReadDir (Dir r es) = Inr entries"
    and wd: "walk_dirs lib (sort_Slice lib (lower_name_less lib) (filter (\<lambda>entry. IsDir (snd entry)) entries)) pfx = Inr dnodes"
    and fs: "fs = sort_Slice lib (lower_name_less lib) (filter (\<lambda>entry. \<not> IsDir (snd entry)) entries)"
    and n: "nodes = dnodes @ map (file_node pfx) fs"
    and t: "takeWhile is_dir_node nodes = dnodes"
    and d: "dropWhile is_dir_node nodes = map (file_node pfx) fs"
    by (rule walkDirectory_shape)
  from rd have e: "entries = sort_key fst es" by (simp split: if_splits)
  let ?ds = "sort_Slice lib (lower_name_less lib) (filter (\<lambda>entry. IsDir (snd entry)) entries)"
  have "mset (map fst ?ds) = mset (map fst (filter (\<lambda>e. IsDir (snd e)) es))"
    unfolding e by simp
  then show "mset (map Name (takeWhile is_dir_node nodes)) = mset (map fst (filter (\<lambda>e. IsDir (snd e)) es))"
    unfolding t walk_dirs_names(1) [OF wd] .
  have "map Name (map (file_node pfx) fs) = map fst fs"
    by (simp add: comp_def)
  moreover have "mset (map fst fs) = mset (map fst (filter (\<lambda>e. \<not> IsDir (snd e)) es))"
    unfolding fs e by simp
  ultimately show "mset (map Name (dropWhile is_dir_node nodes)) = mset (map fst (filter (\<lambda>e. \<not> IsDir (snd e)) es))"
    unfolding d by (simp only:)
  show "\<forall>e\<in>set es. IsDir (snd e) \<longrightarrow>
           (\<exists>cs. walkDirectory lib (snd e) (Join [pfx, fst e]) = Inr cs \<and>
                 FileNode (Join [pfx, fst e]) (fst e) (Join [pfx, fst e]) (Some cs) \<in> set nodes)"
  proof (intro ballI impI)
    fix x assume "x \<in> set es" "IsDir (snd x)"
    then have "x \<in> set ?ds"
      by (simp add: e)
    then obtain i where i: "i < length ?ds" and xi: "?ds ! i = x"
      unfolding in_set_conv_nth by blast
    from walk_dirs_nodes [OF wd] i xi
    obtain cs where "walkDirectory lib (snd x) (Join [pfx, fst x]) = Inr cs"
      and "dnodes ! i = FileNode (Join [pfx, fst x]) (fst x) (Join [pfx, fst x]) (Some cs)"
      and "i < length dnodes"
      by (auto simp: list_all2_conv_all_nth)
    then show "\<exists>cs. walkDirectory lib (snd x) (Join [pfx, fst x]) = Inr cs \<and>
                 FileNode (Join [pfx, fst x]) (fst x) (Join [pfx, fst x]) (Some cs) \<in> set nodes"
      using n by (auto simp: in_set_conv_nth intro!: exI [of _ cs])
  qed
  show "\<forall>e\<in>set es. \<not> IsDir (snd e) \<longrightarrow>
           FileNode (Join [pfx, fst e]) (fst e) (Join [pfx, fst e]) None \<in> set nodes"
  proof (intro ballI impI)
    fix x assume "x \<in> set es" "\<not> IsDir (snd x)"
    then have "x \<in> set fs"
      by (simp add: fs e)
    then have "file_node pfx x \<in> set nodes"
      using n by simp
    then show "FileNode (Join [pfx, fst x]) (fst x) (Join [pfx, fst x]) None \<in> set nodes"
      by (simp add: file_node_def Let_def)
  qed
qed

section \<open>The two instances of the library\<close>

lemma mset_insert_by [simp]: "mset (insert_by lt x ys) = add_mset x (mset ys)"
  by (induction ys) simp_all

lemma mset_sort_stable: "mset (sort_stable lt xs) = mset xs"
  by (induction xs) (simp_all add: sort_stable_def)

lemma sorted_insert_by:
  fixes k :: "'a \<Rightarrow> 'b :: linorder"
  assumes "sorted (map k ys)"
  shows "sorted (map k (insert_by (\<lambda>a b. k a < k b) x ys))"
  using assms
proof (induction ys)
  case Nil
  then show ?case by simp
next
  case (Cons y ys)
  have "set (insert_by (\<lambda>a b. k a < k b) x ys) = insert x (set ys)"
    using mset_insert_by [of "\<lambda>a b. k a < k b" x ys] by (metis mset_eq_setD set_mset_add_mset_insert set_mset_mset)
  with Cons show ?case by (auto simp: not_less)
qed

lemma sorted_sort_stable:
  fixes k :: "'a \<Rightarrow> 'b :: linorder"
  shows "sorted (map k (sort_stable (\<lambda>a b. k a < k b) xs))"
  by (induction xs) (simp_all add: sort_stable_def sorted_insert_by)

lemma lower_name_less_key: "lower_name_less lib = (\<lambda>a b. ToLower lib (fst a) < ToLower lib (fst b))"
  by (simp add: lower_name_less_def fun_eq_iff)

lemma sort_contract_stable:
  assumes "sort_alg lib = sort_stable"
  shows "sort_contract lib"
  unfolding sort_contract_def assms lower_name_less_key
proof (intro allI conjI)
  fix xs :: "DirEntry list"
  show "mset (sort_stable (\<lambda>a b. ToLower lib (fst a) < ToLower lib (fst b)) xs) = mset xs"
    by (rule mset_sort_stable)
  from sorted_sort_stable [of "\<lambda>e. ToLower lib (fst e)" xs]
  show "sorted_wrt (\<lambda>a b. \<not> ToLower lib (fst b) < ToLower lib (fst a))
          (sort_stable (\<lambda>a b. ToLower lib (fst a) < ToLower lib (fst b)) xs)"
    by (simp add: sorted_map not_less)
qed

lemma sort_contract_ascii: "sort_contract ascii_lib"
  by (rule sort_contract_stable) (simp add: ascii_lib_def)

lemma sort_contract_latin: "sort_contract latin_lib"
  by (rule sort_contract_stable) (simp add: latin_lib_def)

text \<open>
  C4. Listing a directory whose directories can all be read succeeds. Whenever the listing
  of a directory succeeds, every level of the result has its directory nodes before its
  file nodes, whatever the names are and whatever the library does; each of the two groups
  is sorted by lower-cased name at every level when \<open>sort.Slice\<close> sorts; the directory
  nodes of the top level are the subdirectories and the file nodes the other entries, each
  once; the node of a subdirectory carries the listing of that subdirectory, and the node
  of a file has no children. \<open>ListFilesRecursively\<close> returns the listing of the workspace
  directory under the empty prefix.
\<close>

theorem walkDirectory_dirs_first_sorted:
  "(all_readable (Dir r es) \<longrightarrow> (\<exists>nodes. walkDirectory lib (Dir r es) pfx = Inr nodes)) \<and>
   (walkDirectory lib (Dir r es) pfx = Inr nodes \<longrightarrow>
      listing_grouped nodes \<and>
      (sort_contract lib \<longrightarrow> listing_ordered lib nodes) \<and>
      mset (map Name (takeWhile is_dir_node nodes)) = mset (map fst (filter (\<lambda>e. IsDir (snd e)) es)) \<and>
      mset (map Name (dropWhile is_dir_node nodes)) = mset (map fst (filter (\<lambda>e. \<not> IsDir (snd e)) es)) \<and>
      (\<forall>e\<in>set es. IsDir (snd e) \<longrightarrow>
         (\<exists>cs. walkDirectory lib (snd e) (Join [pfx, fst e]) = Inr cs \<and>
               FileNode (Join [pfx, fst e]) (fst e) (Join [pfx, fst e]) (Some cs) \<in> set nodes)) \<and>
      (\<forall>e\<in>set es. \<not> IsDir (snd e) \<longrightarrow>
         FileNode (Join [pfx, fst e]) (fst e) (Join [pfx, fst e]) None \<in> set nodes)) \<and>
   (lookup host (path_elems (GetWorkspacePath rootDir userID workspaceID)) = Inr (Dir r es) \<longrightarrow>
      ListFilesRecursively lib host rootDir userID workspaceID = walkDirectory lib (Dir r es) [])"
proof (intro conjI impI)
  assume "all_readable (Dir r es)"
  then show "\<exists>nodes. walkDirectory lib (Dir r es) pfx = Inr nodes"
    using walkDirectory_total(1) [of "Dir r es" lib pfx] by simp
next
  assume "walkDirectory lib (Dir r es) pfx = Inr nodes"
  then show "listing_grouped nodes"
    using level_grouped_walk tree_grouped_walk(1) by (simp add: listing_grouped_def)
next
  assume "walkDirectory lib (Dir r es) pfx = Inr nodes" "sort_contract lib"
  then show "listing_ordered lib nodes"
    using level_ordered_walk tree_ordered_walk(1) by (simp add: listing_ordered_def)
next
  assume "walkDirectory lib (Dir r es) pfx = Inr nodes"
  then show "mset (map Name (takeWhile is_dir_node nodes)) = mset (map fst (filter (\<lambda>e. IsDir (snd e)) es))"
    by (rule walkDirectory_groups)
next
  assume "walkDirectory lib (Dir r es) pfx = Inr nodes"
  then show "mset (map Name (dropWhile is_dir_node nodes)) = mset (map fst (filter (\<lambda>e. \<not> IsDir (snd e)) es))"
    by (rule walkDirectory_groups)
next
  assume "walkDirectory lib (Dir r es) pfx = Inr nodes"
  then show "\<forall>e\<in>set es. IsDir (snd e) \<longrightarrow>
         (\<exists>cs. walkDirectory lib (snd e) (Join [pfx, fst e]) = Inr cs \<and>
               FileNode (Join [pfx, fst e]) (fst e) (Join [pfx, fst e]) (Some cs) \<in> set nodes)"
    by (rule walkDirectory_groups)
next
  assume "walkDirectory lib (Dir r es) pfx = Inr nodes"
  then show "\<forall>e\<in>set es. \<not> IsDir (snd e) \<longrightarrow>
         FileNode (Join [pfx, fst e]) (fst e) (Join [pfx, fst e]) None \<in> set nodes"
    by (rule walkDirectory_groups)
next
  assume "lookup host (path_elems (GetWorkspacePath rootDir userID workspaceID)) = Inr (Dir r es)"
  then show "ListFilesRecursively lib host rootDir userID workspaceID = walkDirectory lib (Dir r es) []"
    by (simp add: ListFilesRecursively_def Let_def)
qed

theorem walkDirectory_dirs_first_sorted_witness:
  "all_readable (Dir True mixed_case_entries) \<and> sort_contract ascii_lib \<and>
   lookup (host_with mixed_case_entries) (path_elems (GetWorkspacePath ''/data'' 7 12)) =
     Inr (Dir True mixed_case_entries) \<and>
   ListFilesRecursively ascii_lib (host_with mixed_case_entries) ''/data'' 7 12 = Inr mixed_case_listing \<and>
   listing_grouped mixed_case_listing \<and> listing_ordered ascii_lib mixed_case_listing \<and>
   sort_contract latin_lib \<and>
   ListFilesRecursively latin_lib (host_with latin_entries) ''/data'' 7 12 = Inr latin_listing \<and>
   listing_grouped latin_listing \<and> listing_ordered latin_lib latin_listing"
proof -
  have r: "all_readable (Dir True mixed_case_entries)"
    by code_simp
  have lk: "lookup (host_with mixed_case_entries) (path_elems (GetWorkspacePath ''/data'' 7 12)) =
     Inr (Dir True mixed_case_entries)"
    by code_simp
  have w: "walkDirectory ascii_lib (Dir True mixed_case_entries) [] = Inr mixed_case_listing"
    by code_simp
  have lk': "lookup (host_with latin_entries) (path_elems (GetWorkspacePath ''/data'' 7 12)) =
     Inr (Dir True latin_entries)"
    by code_simp
  have w': "walkDirectory latin_lib (Dir True latin_entries) [] = Inr latin_listing"
    by code_simp
  note a = walkDirectory_dirs_first_sorted [where lib = ascii_lib and r = True and es = mixed_case_entries
      and pfx = "[]" and nodes = mixed_case_listing and host = "host_with mixed_case_entries"
      and rootDir = "''/data''" and userID = 7 and workspaceID = 12]
  note b = walkDirectory_dirs_first_sorted [where lib = latin_lib and r = True and es = latin_entries
      and pfx = "[]" and nodes = latin_listing and host = "host_with latin_entries"
      and rootDir = "''/data''" and userID = 7 and workspaceID = 12]
  from a lk w have "ListFilesRecursively ascii_lib (host_with mixed_case_entries) ''/data'' 7 12 = Inr mixed_case_listing"
    by simp
  moreover from a w sort_contract_ascii
  have "listing_grouped mixed_case_listing" "listing_ordered ascii_lib mixed_case_listing"
    by blast+
  moreover from b lk' w' have "ListFilesRecursively latin_lib (host_with latin_entries) ''/data'' 7 12 = Inr latin_listing"
    by simp
  moreover from b w' sort_contract_latin
  have "listing_grouped latin_listing" "listing_ordered latin_lib latin_listing"
    by blast+
  ultimately show ?thesis
    using r lk sort_contract_ascii sort_contract_latin by simp
qed
section \<open>Cleaned paths\<close>

lemma good_name_plain: "good_name x \<Longrightarrow> plain x"
  by (simp add: good_name_def plain_def)

lemma plain_dotdot: "plain ''..''"
  by (simp add: plain_def)

lemma normal_plain: "normal r out \<Longrightarrow> x \<in> set out \<Longrightarrow> plain x"
  by (auto simp: normal_def good_name_plain plain_dotdot)

lemma normal_Nil [simp]: "normal r []"
  by (simp add: normal_def)

lemma normal_snoc_good: "normal r out \<Longrightarrow> good_name n \<Longrightarrow> normal r (out @ [n])"
  unfolding normal_def
  apply (elim exE conjE)
  subgoal for k names by (rule exI [of _ k], rule exI [of _ "names @ [n]"]) auto
  done

lemma normal_append_good: "normal r out \<Longrightarrow> \<forall>x\<in>set ns. good_name x \<Longrightarrow> normal r (out @ ns)"
  by (induction ns rule: rev_induct) (auto simp flip: append_assoc intro: normal_snoc_good)

lemma split_sep_not_Nil [simp]: "split_sep s \<noteq> []"
  by (induction s) (auto split: list.splits)

lemma split_sep_no_sep: "x \<in> set (split_sep s) \<Longrightarrow> CHR ''/'' \<notin> set x"
  by (induction s arbitrary: x) (auto split: list.splits if_splits)

lemma split_sep_append: "split_sep (a @ CHR ''/'' # b) = split_sep a @ split_sep b"
  by (induction a) (auto split: list.splits)

lemma split_sep_single: "CHR ''/'' \<notin> set a \<Longrightarrow> split_sep a = [a]"
  by (induction a) (auto split: list.splits)

lemma join_sep_Cons: "ys \<noteq> [] \<Longrightarrow> join_sep (x # ys) = x @ CHR ''/'' # join_sep ys"
  by (cases ys) auto

lemma join_sep_snoc: "xs \<noteq> [] \<Longrightarrow> join_sep (xs @ [y]) = join_sep xs @ CHR ''/'' # y"
  by (induction xs rule: join_sep.induct) auto

lemma join_sep_append:
  "xs \<noteq> [] \<Longrightarrow> ys \<noteq> [] \<Longrightarrow> join_sep (xs @ ys) = join_sep xs @ CHR ''/'' # join_sep ys"
  by (induction xs rule: join_sep.induct) (auto simp: join_sep_Cons)

lemma split_join: "xs \<noteq> [] \<Longrightarrow> \<forall>x\<in>set xs. CHR ''/'' \<notin> set x \<Longrightarrow> split_sep (join_sep xs) = xs"
proof (induction xs rule: join_sep.induct)
  case (3 x y ys)
  then show ?case by (simp add: split_sep_append split_sep_single)
qed (auto simp: split_sep_single)

lemma join_sep_not_Nil: "xs \<noteq> [] \<Longrightarrow> \<forall>x\<in>set xs. x \<noteq> [] \<Longrightarrow> join_sep xs \<noteq> []"
  by (induction xs rule: join_sep.induct) auto

lemma hd_join_sep: "xs \<noteq> [] \<Longrightarrow> hd xs \<noteq> [] \<Longrightarrow> hd (join_sep xs) = hd (hd xs)"
  by (induction xs rule: join_sep.induct) auto

text \<open>\<open>clean_step\<close> keeps normal lists normal.\<close>

lemma normal_butlast:
  assumes "normal r out" "out \<noteq> []" "last out \<noteq> ''..''"
  shows "normal r (butlast out)"
proof -
  from assms(1) obtain k names where o: "out = replicate k ''..'' @ names"
    and g: "\<forall>x\<in>set names. good_name x" and r: "r \<longrightarrow> k = 0"
    by (auto simp: normal_def)
  have "names \<noteq> []"
  proof
    assume "names = []"
    with o assms(2) have "out = replicate k ''..''" "k \<noteq> 0" by auto
    with assms(3) show False by (metis last_replicate)
  qed
  then have "butlast out = replicate k ''..'' @ butlast names"
    using o by (simp add: butlast_append)
  moreover have "\<forall>x\<in>set (butlast names). good_name x"
    using g by (auto dest: in_set_butlastD)
  ultimately show ?thesis using r unfolding normal_def by blast
qed

lemma normal_snoc_dotdot:
  assumes "normal False out" "out = [] \<or> last out = ''..''"
  shows "normal False (out @ [''..''])"
proof -
  from assms(1) obtain k names where o: "out = replicate k ''..'' @ names"
    and g: "\<forall>x\<in>set names. good_name x"
    by (auto simp: normal_def)
  have "names = []"
  proof (rule ccontr)
    assume n: "names \<noteq> []"
    then have "last out = last names" using o by simp
    moreover have "good_name (last names)" using g n by simp
    ultimately show False using assms(2) o n by (auto simp: good_name_def)
  qed
  then have "out @ [''..''] = replicate (Suc k) ''..'' @ []"
    using o by (simp add: replicate_append_same)
  then show ?thesis unfolding normal_def by (metis empty_iff list.set(1))
qed

lemma normal_clean_step:
  assumes "normal r out" "CHR ''/'' \<notin> set seg"
  shows "normal r (clean_step r out seg)"
proof -
  consider "seg = [] \<or> seg = ''.''" | "seg = ''..''" | "good_name seg"
    using assms(2) by (auto simp: good_name_def)
  then show ?thesis
  proof cases
    case 1
    then show ?thesis using assms by (auto simp: clean_step_def)
  next
    case 2
    then show ?thesis using assms normal_butlast [of r out] normal_snoc_dotdot [of out]
      by (cases r) (auto simp: clean_step_def)
  next
    case 3
    then show ?thesis using assms normal_snoc_good [of r out seg]
      by (auto simp: clean_step_def good_name_def)
  qed
qed

lemma normal_foldl:
  "normal r acc \<Longrightarrow> \<forall>x\<in>set xs. CHR ''/'' \<notin> set x \<Longrightarrow> normal r (foldl (clean_step r) acc xs)"
  by (induction xs arbitrary: acc) (auto intro: normal_clean_step)

lemma clean_step_good: "good_name n \<Longrightarrow> clean_step r out n = out @ [n]"
  by (auto simp: clean_step_def good_name_def)

lemma foldl_clean_good: "\<forall>x\<in>set ns. good_name x \<Longrightarrow> foldl (clean_step r) acc ns = acc @ ns"
  by (induction ns arbitrary: acc) (auto simp: clean_step_good)

lemma foldl_clean_dotdots: "foldl (clean_step False) (replicate j ''..'') (replicate k ''..'') = replicate (j + k) ''..''"
proof (induction k arbitrary: j)
  case 0
  then show ?case by simp
next
  case (Suc k)
  have "clean_step False (replicate j ''..'') ''..'' = replicate (Suc j) ''..''"
    by (cases j) (auto simp: clean_step_def replicate_append_same)
  with Suc [of "Suc j"] show ?case by simp
qed

lemma foldl_clean_normal:
  assumes "normal r out"
  shows "foldl (clean_step r) [] out = out"
proof -
  from assms obtain k names where o: "out = replicate k ''..'' @ names"
    and g: "\<forall>x\<in>set names. good_name x" and r: "r \<longrightarrow> k = 0"
    by (auto simp: normal_def)
  show ?thesis
  proof (cases r)
    case True
    with o g r show ?thesis by (simp add: foldl_clean_good)
  next
    case False
    with o g foldl_clean_dotdots [of 0 k] show ?thesis by (simp add: foldl_clean_good)
  qed
qed


lemma normal_nonempty_elems: "normal r out \<Longrightarrow> \<forall>x\<in>set out. x \<noteq> []"
  by (auto dest: normal_plain simp: plain_def)

lemma render_not_Nil: "normal r out \<Longrightarrow> out \<noteq> [] \<Longrightarrow> render r out \<noteq> []"
  using join_sep_not_Nil [of out] normal_nonempty_elems [of r out] by (simp add: render_def)

lemma render_rooted:
  assumes "normal r out" "out \<noteq> []"
  shows "(hd (render r out) = CHR ''/'') = r"
proof (cases r)
  case True
  then show ?thesis by (simp add: render_def)
next
  case False
  from assms have p: "plain (hd out)" by (auto intro: normal_plain)
  then have "hd (join_sep out) = hd (hd out)" using assms(2) by (simp add: hd_join_sep plain_def)
  moreover from p have "hd (hd out) \<noteq> CHR ''/''"
    by (metis hd_in_set plain_def)
  ultimately show ?thesis using False by (simp add: render_def)
qed

lemma split_render:
  assumes "normal r out" "out \<noteq> []"
  shows "split_sep (render r out) = (if r then [[]] else []) @ out"
proof -
  have "split_sep (join_sep out) = out"
    using assms by (intro split_join) (auto dest: normal_plain simp: plain_def)
  then show ?thesis by (simp add: render_def)
qed

lemma clean_step_empty [simp]: "clean_step r out [] = out"
  by (simp add: clean_step_def)

lemma Clean_render:
  assumes "normal r out" "out \<noteq> []"
  shows "Clean (render r out) = render r out"
proof -
  have "foldl (clean_step r) [] (split_sep (render r out)) = out"
    using assms foldl_clean_normal [OF assms(1)] by (cases r) (simp_all add: split_render)
  then show ?thesis
    using render_not_Nil [OF assms] render_rooted [OF assms]
    by (simp add: Clean_def Let_def) (simp add: render_def)
qed

lemma render_snoc: "out \<noteq> [] \<Longrightarrow> render r (out @ ns) = (if ns = [] then render r out else render r out @ CHR ''/'' # join_sep ns)"
  by (simp add: render_def join_sep_append)

lemma Join_child:
  assumes "normal r out" "out \<noteq> []" "good_name n"
  shows "Join [render r out, n] = render r (out @ [n])"
proof -
  have "Join [render r out, n] = Clean (render r out @ CHR ''/'' # n)"
    using render_not_Nil [OF assms(1,2)] by (simp add: Join_def)
  also have "render r out @ CHR ''/'' # n = render r (out @ [n])"
    using assms(2) by (simp add: render_snoc)
  also have "Clean \<dots> = render r (out @ [n])"
    using assms by (intro Clean_render normal_snoc_good) auto
  finally show ?thesis .
qed

lemma strip_common_append [simp]: "strip_common xs (xs @ ys) = ([], ys)"
proof (induction xs)
  case Nil
  show ?case by (cases ys) simp_all
next
  case (Cons x xs)
  then show ?case by simp
qed

lemma render_not_dot:
  assumes "normal r out" "out \<noteq> []"
  shows "render r out \<noteq> ''.''"
proof
  assume d: "render r out = ''.''"
  with render_rooted [OF assms] have "\<not> r" by auto
  from split_render [OF assms] d \<open>\<not> r\<close> have "out = [''.'']"
    by (simp add: split_sep_single)
  with assms(1) show False by (auto dest: normal_plain simp: plain_def)
qed

lemma elems_render:
  assumes "normal r out" "out \<noteq> []"
  shows "elems (render r out) = (if r then [[]] else []) @ out"
proof -
  have "render r out \<noteq> ''/''"
  proof
    assume e: "render r out = ''/''"
    with render_rooted [OF assms] have r by simp
    with e have "join_sep out = []" by (simp add: render_def)
    with join_sep_not_Nil [of out] normal_nonempty_elems [OF assms(1)] assms(2) show False by simp
  qed
  then show ?thesis
    using render_not_Nil [OF assms] split_render [OF assms] by (simp add: elems_def)
qed

lemma Rel_under:
  assumes "normal r out" "out \<noteq> []" "ns \<noteq> []" "\<forall>x\<in>set ns. good_name x"
  shows "Rel (render r out) (render r (out @ ns)) = Inr (join_sep ns)"
proof -
  have n2: "normal r (out @ ns)" using assms by (intro normal_append_good) auto
  have ne2: "out @ ns \<noteq> []" using assms by simp
  have c1: "Clean (render r out) = render r out" using assms(1,2) by (rule Clean_render)
  have c2: "Clean (render r (out @ ns)) = render r (out @ ns)" using n2 ne2 by (rule Clean_render)
  have diff: "render r (out @ ns) \<noteq> render r out"
    using assms(2,3) by (simp add: render_snoc)
  have e1: "elems (render r out) = (if r then [[]] else []) @ out" using assms(1,2) by (rule elems_render)
  have e2: "elems (render r (out @ ns)) = ((if r then [[]] else []) @ out) @ ns"
    using elems_render [OF n2 ne2] by simp
  have s: "strip_common (elems (render r out)) (elems (render r (out @ ns))) = ([], ns)"
    unfolding e1 e2 by (rule strip_common_append)
  show ?thesis
    unfolding Rel_def Let_def c1 c2
    using diff render_not_dot [OF assms(1,2)] render_not_Nil [OF assms(1,2)] render_not_Nil [OF n2 ne2]
      render_rooted [OF assms(1,2)] render_rooted [OF n2 ne2] s
    by simp
qed

text \<open>Decimal strings are names.\<close>

lemma digit_char_is_digit: "d < 10 \<Longrightarrow> is_digit (digit_char d)"
  by (simp add: is_digit_def digit_char_def less_eq_char_def)

lemma is_digit_not_special:
  "is_digit c \<Longrightarrow> c \<noteq> CHR ''/'' \<and> c \<noteq> CHR ''.'' \<and> c \<noteq> CHR ''-''"
  by (auto simp: is_digit_def less_eq_char_def)

lemma dec_nat_digits: "dec_nat n \<noteq> [] \<and> (\<forall>c\<in>set (dec_nat n). is_digit c)"
proof (induction n rule: dec_nat.induct)
  case (1 n)
  show ?case
  proof (cases "n < 10")
    case True
    then show ?thesis using digit_char_is_digit [of n] by (simp add: dec_nat.simps [of n])
  next
    case False
    have "n mod 10 < 10" by simp
    from digit_char_is_digit [OF this] 1 [OF False] False show ?thesis
      by (simp add: dec_nat.simps [of n])
  qed
qed

lemma digits_good_name:
  assumes "s \<noteq> []" "\<forall>c\<in>set s. is_digit c"
  shows "good_name s" and "good_name (CHR ''-'' # s)"
proof -
  have n: "\<forall>c\<in>set s. c \<noteq> CHR ''/'' \<and> c \<noteq> CHR ''.''"
    using assms(2) is_digit_not_special by blast
  obtain c cs where s: "s = c # cs" using assms(1) by (cases s) auto
  with n have c: "c \<noteq> CHR ''/''" "c \<noteq> CHR ''.''" by auto
  from n have "CHR ''/'' \<notin> set s" by blast
  with s c show "good_name s" and "good_name (CHR ''-'' # s)"
    by (auto simp: good_name_def)
qed

lemma Sprintf_d_good: "good_name (Sprintf_d i)"
  using dec_nat_digits [of "nat i"] dec_nat_digits [of "nat (- i)"] digits_good_name
  by (simp add: Sprintf_d_def)

lemma Sprintf_d_not_git: "Sprintf_d i \<noteq> ''.git''"
proof -
  obtain c cs where d: "dec_nat (nat i) = c # cs" "is_digit c"
    using dec_nat_digits [of "nat i"] by (cases "dec_nat (nat i)") auto
  then have "c \<noteq> CHR ''.''" using is_digit_not_special by blast
  with d show ?thesis by (auto simp: Sprintf_d_def)
qed

lemma Clean_unfold:
  assumes "p \<noteq> []" "r = (hd p = CHR ''/'')" "out = foldl (clean_step r) [] (split_sep p)" "out \<noteq> []"
    "\<forall>x\<in>set out. x \<noteq> []"
  shows "Clean p = render r out"
  using assms join_sep_not_Nil [of out] by (simp add: Clean_def Let_def render_def)

lemma GetWorkspacePath_render:
  "\<exists>r out. GetWorkspacePath rootDir u w = render r (out @ [Sprintf_d u, Sprintf_d w]) \<and> normal r out"
proof (cases "rootDir = []")
  case True
  let ?du = "Sprintf_d u" and ?dw = "Sprintf_d w"
  have g: "good_name ?du" "good_name ?dw" by (rule Sprintf_d_good)+
  have n: "normal False ([] @ [?du, ?dw])" using g by (intro normal_append_good) auto
  have "GetWorkspacePath rootDir u w = Clean (render False [?du, ?dw])"
    using True g by (simp add: GetWorkspacePath_def Join_def render_def good_name_def)
  also have "\<dots> = render False ([] @ [?du, ?dw])"
    using Clean_render [OF n] by simp
  finally show ?thesis using normal_Nil by blast
next
  case False
  let ?du = "Sprintf_d u" and ?dw = "Sprintf_d w"
  let ?r = "hd rootDir = CHR ''/''"
  let ?X = "foldl (clean_step ?r) [] (split_sep rootDir)"
  have g: "good_name ?du" "good_name ?dw" by (rule Sprintf_d_good)+
  have nX: "normal ?r ?X" by (intro normal_foldl) (auto dest: split_sep_no_sep)
  then have n: "normal ?r (?X @ [?du, ?dw])" using g by (intro normal_append_good) auto
  let ?p = "rootDir @ CHR ''/'' # ?du @ CHR ''/'' # ?dw"
  have j: "GetWorkspacePath rootDir u w = Clean ?p"
    using False by (simp add: GetWorkspacePath_def Join_def)
  have sp: "split_sep ?p = split_sep rootDir @ [?du, ?dw]"
    using g by (simp add: split_sep_append split_sep_single good_name_def)
  have f: "foldl (clean_step ?r) [] (split_sep ?p) = ?X @ [?du, ?dw]"
    unfolding sp using g by (simp add: clean_step_good)
  have "Clean ?p = render ?r (?X @ [?du, ?dw])"
  proof (rule Clean_unfold)
    show "?p \<noteq> []" by simp
    show "?r = (hd ?p = CHR ''/'')" using False by simp
    show "?X @ [?du, ?dw] = foldl (clean_step ?r) [] (split_sep ?p)" using f by simp
    show "?X @ [?du, ?dw] \<noteq> []" by simp
    show "\<forall>x\<in>set (?X @ [?du, ?dw]). x \<noteq> []"
      using normal_nonempty_elems [OF n] .
  qed
  with j nX show ?thesis by metis
qed

lemma strip_trailing_id: "s \<noteq> [] \<Longrightarrow> last s \<noteq> CHR ''/'' \<Longrightarrow> strip_trailing s = s"
  by (cases s rule: strip_trailing.cases) auto

lemma basename_tail:
  assumes "x \<noteq> []" "CHR ''/'' \<notin> set x" "pre = [] \<or> last pre = CHR ''/''"
  shows "basename (pre @ x) = x"
proof -
  have l: "last (pre @ x) = last x" using assms(1) by simp
  have "last x \<in> set x" using assms(1) by simp
  with assms(2) have "last x \<noteq> CHR ''/''" by metis
  with l assms(1) have st: "strip_trailing (pre @ x) = pre @ x"
    by (intro strip_trailing_id) auto
  have b: "butlast (pre @ x) = pre @ butlast x" using assms(1) by (simp add: butlast_append)
  have "takeWhile (\<lambda>c. c \<noteq> CHR ''/'') (rev (butlast x) @ rev pre) = rev (butlast x)"
  proof (cases "pre = []")
    case True
    then show ?thesis using assms(2) by (auto simp: takeWhile_eq_all_conv dest: in_set_butlastD)
  next
    case False
    with assms(3) have "hd (rev pre) = CHR ''/''" by (simp add: hd_rev)
    moreover have "rev pre \<noteq> []" using False by simp
    ultimately have "takeWhile (\<lambda>c. c \<noteq> CHR ''/'') (rev pre) = []"
      by (cases "rev pre") auto
    moreover have "takeWhile (\<lambda>c. c \<noteq> CHR ''/'') (rev (butlast x) @ rev pre) =
        rev (butlast x) @ takeWhile (\<lambda>c. c \<noteq> CHR ''/'') (rev pre)"
      by (rule takeWhile_append2) (use assms(2) in \<open>auto dest: in_set_butlastD\<close>)
    ultimately show ?thesis by simp
  qed
  then show ?thesis
    using assms(1) l by (simp add: basename_def st b Let_def)
qed

lemma basename_render:
  assumes "normal r out" "out \<noteq> []"
  shows "basename (render r out) = last out"
proof -
  from assms have p: "plain (last out)" by (auto intro: normal_plain)
  have "\<exists>pre. render r out = pre @ last out \<and> (pre = [] \<or> last pre = CHR ''/'')"
  proof (cases "butlast out = []")
    case True
    then have "out = [last out]" using assms(2) by (metis append_butlast_last_id append_Nil)
    then have "render r out = (if r then ''/'' else []) @ last out"
      by (metis join_sep.simps(2) render_def)
    then show ?thesis by (cases r) auto
  next
    case False
    have "out = butlast out @ [last out]" using assms(2) by simp
    then have "join_sep out = join_sep (butlast out) @ CHR ''/'' # last out"
      using False by (metis join_sep_snoc)
    then have "render r out = ((if r then ''/'' else []) @ join_sep (butlast out) @ ''/'') @ last out"
      by (simp add: render_def)
    then show ?thesis by (metis last_snoc append_assoc)
  qed
  then obtain pre where "render r out = pre @ last out" "pre = [] \<or> last pre = CHR ''/''" by blast
  with p basename_tail [of "last out" pre] show ?thesis by (simp add: plain_def)
qed

section \<open>Finding files by name\<close>

lemma find_fn_dir:
  "IsDir t \<Longrightarrow> find_fn lib ws q acc path (Some (n, t)) None = (acc, None)"
  by (simp add: find_fn_def)

lemma find_fn_err:
  "find_fn lib ws q acc path info (Some e) = (acc, Some e)"
  by (simp add: find_fn_def)

lemma find_fn_file:
  "\<not> IsDir t \<Longrightarrow> Rel ws path = Inr rp \<Longrightarrow>
   find_fn lib ws q acc path (Some (n, t)) None = (if EqualFold lib n q then acc @ [rp] else acc, None)"
  by (simp add: find_fn_def)

lemma find_walk:
  fixes base :: "string list"
  assumes nb: "normal r base" "base \<noteq> []" and ws: "ws = render r base"
  shows "fn = find_fn lib ws q \<longrightarrow> well_formed (snd info) \<and> good_name (fst info) \<and> (\<forall>x\<in>set rel. good_name x) \<and>
           path = render r (base @ rel @ [fst info]) \<longrightarrow>
         walk path info fn acc =
           (acc @ map join_sep (filter (name_matches lib q) (map (\<lambda>cs. rel @ fst info # cs) (tree_files (snd info)))), None)"
    and "fn = find_fn lib ws q \<longrightarrow> (\<forall>e\<in>set es. good_name (fst e) \<and> well_formed (snd e)) \<and> (\<forall>x\<in>set rel. good_name x) \<and>
           path' = render r (base @ rel) \<longrightarrow>
         walk_names path' es fn acc' =
           (acc' @ map join_sep (filter (name_matches lib q)
               (concat (map (\<lambda>e. map (\<lambda>cs. rel @ fst e # cs) (tree_files (snd e))) es))), None)"
proof (induction path info fn acc and path' es fn acc' arbitrary: rel and rel rule: walk_walk_names.induct)
  case (1 path info walkFn acc)
  show ?case
  proof (intro impI, elim conjE)
    assume fn: "walkFn = find_fn lib ws q" and wf: "well_formed (snd info)" and gn: "good_name (fst info)"
      and gr: "\<forall>x\<in>set rel. good_name x" and p: "path = render r (base @ rel @ [fst info])"
    obtain n t where info: "info = (n, t)" by (cases info)
    show "walk path info walkFn acc =
           (acc @ map join_sep (filter (name_matches lib q) (map (\<lambda>cs. rel @ fst info # cs) (tree_files (snd info)))), None)"
    proof (cases t)
      case (File b)
      have "Rel ws path = Inr (join_sep (rel @ [n]))"
        unfolding ws p info fst_conv using nb gn gr info by (intro Rel_under) auto
      with File info fn show ?thesis
        by (simp add: walk.simps find_fn_file name_matches_def)
    next
      case (Dir rd es)
      with wf info have rd: "rd" and sub: "\<forall>e\<in>set es. good_name (fst e) \<and> well_formed (snd e)"
        by auto
      have rdir: "ReadDir (snd info) = Inr (sort_key fst es)" using Dir info rd by simp
      have call: "walkFn acc path (Some info) None = (acc, None)"
        using fn Dir info by (simp add: find_fn_dir)
      have isd: "\<not> \<not> IsDir (snd info)" using Dir info by simp
      have "walk_names path (sort_key fst es) walkFn acc =
           (acc @ map join_sep (filter (name_matches lib q)
               (concat (map (\<lambda>e. map (\<lambda>cs. (rel @ [n]) @ fst e # cs) (tree_files (snd e))) (sort_key fst es)))), None)"
        using 1 [OF isd rdir call [symmetric] refl, of "rel @ [n]"] fn sub gr gn p info
        by simp
      moreover have "walk path info walkFn acc = walk_names path (sort_key fst es) walkFn acc"
        using rdir call isd by (simp add: walk.simps)
      ultimately show ?thesis
        using Dir info by (simp add: map_concat comp_def)
    qed
  qed
next
  case (2 path walkFn acc)
  show ?case by simp
next
  case (3 path entry rest walkFn acc)
  show ?case
  proof (intro impI, elim conjE)
    assume fn: "walkFn = find_fn lib ws q"
      and sub: "\<forall>e\<in>set (entry # rest). good_name (fst e) \<and> well_formed (snd e)"
      and gr: "\<forall>x\<in>set rel. good_name x" and p: "path = render r (base @ rel)"
    have j: "Join [path, fst entry] = render r (base @ rel @ [fst entry])"
      unfolding p using nb gr sub Join_child [of r "base @ rel" "fst entry"]
      by (simp add: normal_append_good)
    let ?found = "map join_sep (filter (name_matches lib q) (map (\<lambda>cs. rel @ fst entry # cs) (tree_files (snd entry))))"
    have w: "walk (Join [path, fst entry]) entry walkFn acc = (acc @ ?found, None)"
      using 3(1) [OF refl, of rel] fn sub gr j by simp
    have "walk_names path rest walkFn (acc @ ?found) =
           ((acc @ ?found) @ map join_sep (filter (name_matches lib q)
               (concat (map (\<lambda>e. map (\<lambda>cs. rel @ fst e # cs) (tree_files (snd e))) rest))), None)"
      using 3(2) [OF refl w [symmetric] refl, of rel] fn sub gr p by simp
    with w show "walk_names path (entry # rest) walkFn acc =
           (acc @ map join_sep (filter (name_matches lib q)
               (concat (map (\<lambda>e. map (\<lambda>cs. rel @ fst e # cs) (tree_files (snd e))) (entry # rest)))), None)"
      by (simp add: Let_def)
  qed
qed


lemma workspace_path_normal:
  obtains r base where "GetWorkspacePath rootDir u w = render r base" "normal r base" "base \<noteq> []"
    "last base = Sprintf_d w"
proof -
  from GetWorkspacePath_render [of rootDir u w] obtain r out
    where g: "GetWorkspacePath rootDir u w = render r (out @ [Sprintf_d u, Sprintf_d w])" and n: "normal r out"
    by blast
  have "normal r (out @ [Sprintf_d u, Sprintf_d w])"
    using n by (intro normal_append_good) (auto simp: Sprintf_d_good)
  with g show ?thesis by (intro that [of r "out @ [Sprintf_d u, Sprintf_d w]"]) auto
qed

lemma Walk_find:
  assumes lk: "lookup host (path_elems (GetWorkspacePath rootDir u w)) = Inr (Dir rd es)"
    and wf: "well_formed (Dir rd es)"
  shows "Walk host (GetWorkspacePath rootDir u w) (find_fn lib (GetWorkspacePath rootDir u w) q) [] =
           (map join_sep (filter (name_matches lib q) (tree_files (Dir rd es))), None)"
proof -
  let ?ws = "GetWorkspacePath rootDir u w"
  obtain r base where ws: "?ws = render r base" and nb: "normal r base" "base \<noteq> []"
    by (rule workspace_path_normal)
  from wf have rd: rd and sub: "\<forall>e\<in>set es. good_name (fst e) \<and> well_formed (snd e)" by auto
  have ls: "Lstat host ?ws = Inr (basename ?ws, Dir rd es)"
    using lk by (simp add: Lstat_def)
  have "walk ?ws (basename ?ws, Dir rd es) (find_fn lib ?ws q) [] =
          walk_names ?ws (sort_key fst es) (find_fn lib ?ws q) []"
    using rd by (simp add: walk.simps find_fn_dir)
  also have "\<dots> = ([] @ map join_sep (filter (name_matches lib q)
               (concat (map (\<lambda>e. map (\<lambda>cs. [] @ fst e # cs) (tree_files (snd e))) (sort_key fst es)))), None)"
    using find_walk(2) [OF nb ws, of "find_fn lib ?ws q" lib q "sort_key fst es" "[]" ?ws "[]"] sub ws
    by simp
  finally show ?thesis using ls by (simp add: Walk_def)
qed

lemma FindFileByName_result:
  assumes "lookup host (path_elems (GetWorkspacePath rootDir userID workspaceID)) = Inr (Dir rd es)"
    and "well_formed (Dir rd es)"
  shows "FindFileByName lib host rootDir userID workspaceID filename =
           (if filter (name_matches lib filename) (tree_files (Dir rd es)) = []
            then Inl (ErrorString ''file not found'')
            else Inr (map join_sep (filter (name_matches lib filename) (tree_files (Dir rd es)))))"
  using Walk_find [OF assms, of lib filename] by (simp add: FindFileByName_def Let_def)

lemma notes_lookup:
  "lookup (host_with notes_entries) (path_elems (GetWorkspacePath ''/data'' 7 12)) = Inr (Dir True notes_entries)"
  by code_simp

lemma notes_well_formed: "well_formed (Dir True notes_entries)"
  by code_simp

lemma notes_files:
  "tree_files (Dir True notes_entries) =
     [[''NOTES'', ''a.MD''], [''a'', ''a.md''], [''a-b'', ''a.md''], [''notes'', ''A.md''], [''todo.md'']]"
  by code_simp

lemma notes_matches:
  assumes "folds_ascii lib"
  shows "filter (name_matches lib ''a.md'') (tree_files (Dir True notes_entries)) =
     [[''NOTES'', ''a.MD''], [''a'', ''a.md''], [''a-b'', ''a.md''], [''notes'', ''A.md'']]"
proof -
  have a: "is_ascii ''a.md''" "is_ascii ''a.MD''" "is_ascii ''A.md''" "is_ascii ''todo.md''"
    by code_simp+
  have l: "map lower_char ''a.MD'' = map lower_char ''a.md''"
      "map lower_char ''A.md'' = map lower_char ''a.md''"
      "map lower_char ''todo.md'' \<noteq> map lower_char ''a.md''"
    by code_simp+
  from assms a l have "EqualFold lib ''a.MD'' ''a.md''" "EqualFold lib ''a.md'' ''a.md''"
      "EqualFold lib ''A.md'' ''a.md''" "\<not> EqualFold lib ''todo.md'' ''a.md''"
    unfolding folds_ascii_def by blast+
  then show ?thesis
    unfolding notes_files by (simp add: name_matches_def)
qed

text \<open>
  C8. For a workspace directory whose directories can be listed, \<open>FindFileByName\<close> returns
  the files whose name is equal to the query under \<open>strings.EqualFold\<close>, each as the path
  from the workspace root, in the order of the walk (entries by name, a directory's content
  before its next sibling); it fails with \<open>file not found\<close> exactly when no file matches.
  When \<open>EqualFold\<close> ignores the case of ASCII letters, the workspace with \<open>notes/A.md\<close> and
  \<open>NOTES/a.MD\<close> gives both for the query \<open>a.md\<close>, among the other files of that name.
\<close>

theorem FindFileByName_case_insensitive_walk_order:
  "(lookup host (path_elems (GetWorkspacePath rootDir userID workspaceID)) = Inr (Dir rd es) \<and>
    well_formed (Dir rd es) \<longrightarrow>
      FindFileByName lib host rootDir userID workspaceID filename =
           (if filter (name_matches lib filename) (tree_files (Dir rd es)) = []
            then Inl (ErrorString ''file not found'')
            else Inr (map join_sep (filter (name_matches lib filename) (tree_files (Dir rd es))))) \<and>
      (FindFileByName lib host rootDir userID workspaceID filename = Inl (ErrorString ''file not found'')
            \<longleftrightarrow> (\<forall>cs\<in>set (tree_files (Dir rd es)). \<not> EqualFold lib (last cs) filename))) \<and>
   (folds_ascii lib \<longrightarrow>
      FindFileByName lib (host_with notes_entries) ''/data'' 7 12 ''a.md'' =
        Inr [''NOTES/a.MD'', ''a/a.md'', ''a-b/a.md'', ''notes/A.md''])"
proof (intro conjI impI)
  assume a: "lookup host (path_elems (GetWorkspacePath rootDir userID workspaceID)) = Inr (Dir rd es) \<and>
    well_formed (Dir rd es)"
  then have f: "FindFileByName lib host rootDir userID workspaceID filename =
           (if filter (name_matches lib filename) (tree_files (Dir rd es)) = []
            then Inl (ErrorString ''file not found'')
            else Inr (map join_sep (filter (name_matches lib filename) (tree_files (Dir rd es)))))"
    using FindFileByName_result by blast
  then show "FindFileByName lib host rootDir userID workspaceID filename =
           (if filter (name_matches lib filename) (tree_files (Dir rd es)) = []
            then Inl (ErrorString ''file not found'')
            else Inr (map join_sep (filter (name_matches lib filename) (tree_files (Dir rd es)))))" .
  from f show "FindFileByName lib host rootDir userID workspaceID filename = Inl (ErrorString ''file not found'')
            \<longleftrightarrow> (\<forall>cs\<in>set (tree_files (Dir rd es)). \<not> EqualFold lib (last cs) filename)"
    by (auto simp: filter_empty_conv name_matches_def)
next
  assume fa: "folds_ascii lib"
  have j: "map join_sep [[''NOTES'', ''a.MD''], [''a'', ''a.md''], [''a-b'', ''a.md''], [''notes'', ''A.md'']] =
      [''NOTES/a.MD'', ''a/a.md'', ''a-b/a.md'', ''notes/A.md'']"
    by code_simp
  show "FindFileByName lib (host_with notes_entries) ''/data'' 7 12 ''a.md'' =
        Inr [''NOTES/a.MD'', ''a/a.md'', ''a-b/a.md'', ''notes/A.md'']"
    unfolding FindFileByName_result [OF notes_lookup notes_well_formed] notes_matches [OF fa] j
    by simp
qed

theorem FindFileByName_case_insensitive_walk_order_witness:
  "lookup (host_with notes_entries) (path_elems (GetWorkspacePath ''/data'' 7 12)) = Inr (Dir True notes_entries) \<and>
   well_formed (Dir True notes_entries) \<and> folds_ascii ascii_lib \<and>
   FindFileByName ascii_lib (host_with notes_entries) ''/data'' 7 12 ''a.md'' =
     Inr [''NOTES/a.MD'', ''a/a.md'', ''a-b/a.md'', ''notes/A.md''] \<and>
   \<not> sorted [''NOTES/a.MD'', ''a/a.md'', ''a-b/a.md'', ''notes/A.md''] \<and>
   FindFileByName ascii_lib (host_with notes_entries) ''/data'' 7 12 ''missing.md'' =
     Inl (ErrorString ''file not found'') \<and>
   lookup (host_with latin_entries) (path_elems (GetWorkspacePath ''/data'' 7 12)) = Inr (Dir True latin_entries) \<and>
   well_formed (Dir True latin_entries) \<and>
   FindFileByName latin_lib (host_with latin_entries) ''/data'' 7 12 (CHR 0xC3 # CHR 0xA9 # ''.md'') =
     Inr [[CHR 0xC3, CHR 0xA9] @ ''/'' @ [CHR 0xC3, CHR 0x89] @ ''.md'']"
proof -
  have lk: "lookup (host_with notes_entries) (path_elems (GetWorkspacePath ''/data'' 7 12)) = Inr (Dir True notes_entries)"
    by code_simp
  have wf: "well_formed (Dir True notes_entries)"
    by code_simp
  have fa: "folds_ascii ascii_lib"
    by (simp add: folds_ascii_def ascii_lib_def)
  have n: "filter (name_matches ascii_lib ''missing.md'') (tree_files (Dir True notes_entries)) = []"
    by code_simp
  have u: "\<not> sorted [''NOTES/a.MD'', ''a/a.md'', ''a-b/a.md'', ''notes/A.md'']"
    by code_simp
  have lk': "lookup (host_with latin_entries) (path_elems (GetWorkspacePath ''/data'' 7 12)) = Inr (Dir True latin_entries)"
    by code_simp
  have wf': "well_formed (Dir True latin_entries)"
    by code_simp
  have m': "map join_sep (filter (name_matches latin_lib (CHR 0xC3 # CHR 0xA9 # ''.md'')) (tree_files (Dir True latin_entries))) =
      [[CHR 0xC3, CHR 0xA9] @ ''/'' @ [CHR 0xC3, CHR 0x89] @ ''.md'']"
    by code_simp
  note a = FindFileByName_case_insensitive_walk_order [where lib = ascii_lib and host = "host_with notes_entries"
      and rootDir = "''/data''" and userID = 7 and workspaceID = 12 and rd = True and es = notes_entries
      and filename = "''missing.md''"]
  note b = FindFileByName_case_insensitive_walk_order [where lib = latin_lib and host = "host_with latin_entries"
      and rootDir = "''/data''" and userID = 7 and workspaceID = 12 and rd = True and es = latin_entries
      and filename = "CHR 0xC3 # CHR 0xA9 # ''.md''"]
  from a fa have "FindFileByName ascii_lib (host_with notes_entries) ''/data'' 7 12 ''a.md'' =
     Inr [''NOTES/a.MD'', ''a/a.md'', ''a-b/a.md'', ''notes/A.md'']"
    by blast
  moreover from a lk wf n
  have "FindFileByName ascii_lib (host_with notes_entries) ''/data'' 7 12 ''missing.md'' =
     Inl (ErrorString ''file not found'')"
    by simp
  moreover from b lk' wf' have "FindFileByName latin_lib (host_with latin_entries) ''/data'' 7 12 (CHR 0xC3 # CHR 0xA9 # ''.md'') =
      (if filter (name_matches latin_lib (CHR 0xC3 # CHR 0xA9 # ''.md'')) (tree_files (Dir True latin_entries)) = []
       then Inl (ErrorString ''file not found'')
       else Inr (map join_sep (filter (name_matches latin_lib (CHR 0xC3 # CHR 0xA9 # ''.md'')) (tree_files (Dir True latin_entries)))))"
    by blast
  then have "FindFileByName latin_lib (host_with latin_entries) ''/data'' 7 12 (CHR 0xC3 # CHR 0xA9 # ''.md'') =
     Inr [[CHR 0xC3, CHR 0xA9] @ ''/'' @ [CHR 0xC3, CHR 0x89] @ ''.md'']"
    using m' by (auto split: if_splits)
  ultimately show ?thesis
    using lk wf fa u lk' wf' by simp
qed
section \<open>File statistics\<close>


lemma add_stats_Nil [simp]: "add_stats acc [] = acc"
  by (simp add: add_stats_def)

lemma add_stats_append: "add_stats (add_stats acc xs) ys = add_stats acc (xs @ ys)"
  by (simp add: add_stats_def)

lemma sum_list_insort_key: "sum_list (map f (insort_key k x xs)) = f x + sum_list (map f xs)"
  for f :: "'a \<Rightarrow> nat"
  by (induction xs) auto

lemma sum_list_sort_key: "sum_list (map f (sort_key k xs)) = sum_list (map f xs)"
  for f :: "'a \<Rightarrow> nat"
  by (induction xs) (auto simp: sum_list_insort_key)

lemma sum_list_concat_map: "sum_list (map f (concat xss)) = sum_list (map (\<lambda>xs. sum_list (map f xs)) xss)"
  by (induction xss) auto

lemma add_stats_sorted:
  "add_stats acc (concat (map g (sort_key k xs))) = add_stats acc (concat (map g xs))"
proof -
  have "length (concat (map g (sort_key k xs))) = length (concat (map g xs))"
    by (simp add: length_concat comp_def sum_list_sort_key)
  moreover have "sum_list (map length (concat (map g (sort_key k xs)))) = sum_list (map length (concat (map g xs)))"
    by (simp add: sum_list_concat_map sum_list_sort_key)
  ultimately show ?thesis by (simp add: add_stats_def)
qed

lemma count_fn_git:
  "IsDir t \<Longrightarrow> count_fn ws acc path (Some (''.git'', t)) None = (acc, Some SkipDir)"
  by (simp add: count_fn_def)

lemma count_fn_dir:
  "IsDir t \<Longrightarrow> n \<noteq> ''.git'' \<Longrightarrow> count_fn ws acc path (Some (n, t)) None = (acc, None)"
  by (simp add: count_fn_def)

lemma count_fn_file:
  "Rel ws path = Inr rp \<Longrightarrow>
   count_fn ws acc path (Some (n, File b)) None = (add_stats acc [b], None)"
  by (simp add: count_fn_def entry_Info_def add_stats_def)

lemma entry_ok_Dir:
  "entry_ok (n, Dir rd es) \<Longrightarrow> n \<noteq> ''.git'' \<Longrightarrow> rd \<and> (\<forall>e\<in>set es. entry_ok e)"
  by (auto simp: entry_ok_def)

lemma count_walk:
  fixes base :: "string list"
  assumes nb: "normal r base" "base \<noteq> []" and ws: "ws = render r base"
  shows "fn = count_fn ws \<longrightarrow> entry_ok d \<and>
           (\<forall>x\<in>set rel. good_name x) \<and> path = render r (base @ rel @ [fst d]) \<longrightarrow>
         walkDir path d fn acc = (add_stats acc (outside_git d), None)"
    and "fn = count_fn ws \<longrightarrow> (\<forall>e\<in>set es. entry_ok e) \<and>
           (\<forall>x\<in>set rel. good_name x) \<and> path' = render r (base @ rel) \<longrightarrow>
         walkDir_entries path' es fn acc' = (add_stats acc' (concat (map outside_git es)), None)"
proof (induction path d fn acc and path' es fn acc' arbitrary: rel and rel rule: walkDir_walkDir_entries.induct)
  case (1 path d walkDirFn acc)
  show ?case
  proof (intro impI, elim conjE)
    assume fn: "walkDirFn = count_fn ws" and ok: "entry_ok d"
      and gr: "\<forall>x\<in>set rel. good_name x" and p: "path = render r (base @ rel @ [fst d])"
    obtain n t where d: "d = (n, t)" by (cases d)
    from ok d have gn: "good_name n" by (simp add: entry_ok_def)
    show "walkDir path d walkDirFn acc = (add_stats acc (outside_git d), None)"
    proof (cases t)
      case (File b)
      have "Rel ws path = Inr (join_sep (rel @ [n]))"
        unfolding ws p d fst_conv using nb gn gr by (intro Rel_under) auto
      with File d fn show ?thesis
        by (simp add: walkDir.simps count_fn_file outside_git_def)
    next
      case (Dir rd es)
      show ?thesis
      proof (cases "n = ''.git''")
        case True
        with Dir d fn show ?thesis
          by (simp add: walkDir.simps count_fn_git outside_git_def)
      next
        case False
        from entry_ok_Dir [OF ok [unfolded d Dir] False]
        have rd: "rd" and sub: "\<forall>e\<in>set es. entry_ok e" by auto
        have rdir: "ReadDir (snd d) = Inr (sort_key fst es)" using Dir d rd by simp
        have call: "walkDirFn acc path (Some d) None = (acc, None)"
          using fn Dir d False by (simp add: count_fn_dir)
        have isd: "\<not> \<not> IsDir (snd d)" using Dir d by simp
        have gr': "\<forall>x\<in>set (rel @ [n]). good_name x" using gr gn by simp
        have p': "path = render r (base @ rel @ [n])" using p d by simp
        have sub': "\<forall>e\<in>set (sort_key fst es). entry_ok e" using sub by simp
        note ih = 1 [OF call [symmetric] refl isd rdir, of "rel @ [n]", rule_format]
        have "walkDir_entries path (sort_key fst es) walkDirFn acc =
                (add_stats acc (concat (map outside_git (sort_key fst es))), None)"
          by (rule ih) (use fn sub' gr' p' in auto)
        moreover have "walkDir path d walkDirFn acc = walkDir_entries path (sort_key fst es) walkDirFn acc"
          using rdir call isd by (simp add: walkDir.simps)
        moreover have "outside_git d = concat (map outside_git es)"
          using Dir d False by (simp add: outside_git_def [abs_def])
        ultimately show ?thesis
          by (simp add: add_stats_sorted)
      qed
    qed
  qed
next
  case (2 path walkDirFn acc)
  show ?case by simp
next
  case (3 path d1 rest walkDirFn acc)
  show ?case
  proof (intro impI, elim conjE)
    assume fn: "walkDirFn = count_fn ws"
      and sub: "\<forall>e\<in>set (d1 # rest). entry_ok e"
      and gr: "\<forall>x\<in>set rel. good_name x" and p: "path = render r (base @ rel)"
    from sub have ok1: "entry_ok d1" and okr: "\<forall>e\<in>set rest. entry_ok e" by auto
    from ok1 have g1: "good_name (fst d1)" by (simp add: entry_ok_def)
    have "normal r (base @ rel)" using nb gr by (simp add: normal_append_good)
    then have j: "Join [path, fst d1] = render r (base @ rel @ [fst d1])"
      unfolding p using nb(2) g1 Join_child [of r "base @ rel" "fst d1"] by simp
    note ih1 = 3(1) [OF refl, of rel, rule_format]
    have w: "walkDir (Join [path, fst d1]) d1 walkDirFn acc = (add_stats acc (outside_git d1), None)"
      by (rule ih1) (use fn ok1 gr j in auto)
    note ih2 = 3(2) [OF refl w [symmetric] refl, of rel, rule_format]
    have "walkDir_entries path rest walkDirFn (add_stats acc (outside_git d1)) =
            (add_stats (add_stats acc (outside_git d1)) (concat (map outside_git rest)), None)"
      by (rule ih2) (use fn okr gr p in auto)
    with w show "walkDir_entries path (d1 # rest) walkDirFn acc =
            (add_stats acc (concat (map outside_git (d1 # rest))), None)"
      by (simp add: Let_def add_stats_append)
  qed
qed

lemma add_stats_zero:
  "add_stats \<lparr>TotalFiles = 0, TotalSize = 0\<rparr> bs =
     \<lparr>TotalFiles = of_nat (length bs), TotalSize = of_nat (sum_list (map length bs))\<rparr>"
  by (simp add: add_stats_def)

lemma WalkDir_count:
  assumes lk: "lookup host (path_elems (GetWorkspacePath rootDir u w)) = Inr (Dir rd es)"
    and wf: "well_formed_outside_git (Dir rd es)"
  shows "WalkDir host (GetWorkspacePath rootDir u w) (count_fn (GetWorkspacePath rootDir u w)) acc =
           (add_stats acc (files_outside_git (Dir rd es)), None)"
proof -
  let ?ws = "GetWorkspacePath rootDir u w"
  obtain r base where ws: "?ws = render r base" and nb: "normal r base" "base \<noteq> []"
    and lb: "last base = Sprintf_d w"
    by (rule workspace_path_normal)
  from wf have rd: rd and sub: "\<forall>e\<in>set (sort_key fst es). entry_ok e"
    by (auto simp: entry_ok_def)
  have bn: "basename ?ws \<noteq> ''.git''"
    using basename_render [OF nb] lb ws Sprintf_d_not_git [of w] by simp
  have ls: "Lstat host ?ws = Inr (basename ?ws, Dir rd es)"
    using lk by (simp add: Lstat_def)
  have "walkDir ?ws (basename ?ws, Dir rd es) (count_fn ?ws) acc =
          walkDir_entries ?ws (sort_key fst es) (count_fn ?ws) acc"
    using rd bn by (simp add: walkDir.simps count_fn_dir)
  also have "\<dots> = (add_stats acc (concat (map outside_git (sort_key fst es))), None)"
    by (rule count_walk(2) [OF nb ws, of _ _ "[]", rule_format]) (use sub ws in auto)
  finally have w: "walkDir ?ws (basename ?ws, Dir rd es) (count_fn ?ws) acc =
      (add_stats acc (concat (map outside_git (sort_key fst es))), None)" .
  have "concat (map outside_git es) = files_outside_git (Dir rd es)"
    by (simp add: outside_git_def [abs_def])
  with w ls show ?thesis by (simp add: WalkDir_def add_stats_sorted)
qed

text \<open>
  C9. For a workspace directory whose directories outside \<open>.git\<close> can be listed (nothing
  is asked of what lies inside a directory named \<open>.git\<close>), \<open>GetFileStats\<close> succeeds; the
  file count is the number of files that do not lie inside a directory named \<open>.git\<close>, and
  the total size is the sum of their lengths, each file counted once.
\<close>

theorem GetFileStats_skips_git:
  assumes "lookup host (path_elems (GetWorkspacePath rootDir userID workspaceID)) = Inr (Dir rd es)"
    and "well_formed_outside_git (Dir rd es)"
  shows "GetFileStats host rootDir userID workspaceID =
           Inr \<lparr>TotalFiles = of_nat (length (files_outside_git (Dir rd es))),
                TotalSize = of_nat (sum_list (map length (files_outside_git (Dir rd es))))\<rparr>"
proof -
  have "Lstat host (GetWorkspacePath rootDir userID workspaceID) \<noteq> Inl ErrNotExist"
    using assms(1) by (simp add: Lstat_def)
  then show ?thesis
    using WalkDir_count [OF assms, of "\<lparr>TotalFiles = 0, TotalSize = 0\<rparr>"]
    by (simp add: GetFileStats_def countFilesInPath_def Let_def add_stats_zero)
qed

theorem GetFileStats_skips_git_witness:
  "lookup (host_with example_entries) (path_elems (GetWorkspacePath ''/data'' 7 12)) = Inr (Dir True example_entries) \<and>
   well_formed_outside_git (Dir True example_entries) \<and>
   \<not> all_readable (Dir True example_entries) \<and>
   files_outside_git (Dir True example_entries) = [[104, 105], [], [255, 254, 0], [7], [8, 9], [35]] \<and>
   GetFileStats (host_with example_entries) ''/data'' 7 12 = Inr \<lparr>TotalFiles = 6, TotalSize = 9\<rparr>"
proof -
  have lk: "lookup (host_with example_entries) (path_elems (GetWorkspacePath ''/data'' 7 12)) = Inr (Dir True example_entries)"
    by code_simp
  have wf: "well_formed_outside_git (Dir True example_entries)"
    by code_simp
  have nr: "\<not> all_readable (Dir True example_entries)"
    by code_simp
  have fo: "files_outside_git (Dir True example_entries) = [[104, 105], [], [255, 254, 0], [7], [8, 9], [35]]"
    by code_simp
  from GetFileStats_skips_git [OF lk wf] lk wf nr fo show ?thesis by simp
qed


end
